theory Spec2Isabelle
  imports Main
begin

section \<open>JavaScript values\<close>

text \<open>
  The payloads handled by \<^verbatim>\<open>lib/queries.js\<close> are untyped JavaScript values. Numbers are
  taken as integers (identifiers, counts, positions); an object is the list of its own
  properties, in insertion order.
\<close>

datatype jsval =
    JUndefined
  | JNull
  | JBool bool
  | JNum int
  | JStr string
  | JArr "jsval list"
  | JObj "(string \<times> jsval) list"

type_synonym obj = "(string \<times> jsval) list"

text \<open>An error thrown by the code: \<^verbatim>\<open>err.status\<close> (absent on a TypeError) and the message.\<close>

datatype error = Error (status: "nat option") (message: string)

definition http_error :: "nat \<Rightarrow> string \<Rightarrow> error" where
  "http_error code msg = Error (Some code) msg"

definition type_error :: "string \<Rightarrow> error" where
  "type_error msg = Error None msg"

subsection \<open>Number and value formatting\<close>

definition digit_char :: "nat \<Rightarrow> char" where
  "digit_char d = char_of (48 + d)"

function show_nat :: "nat \<Rightarrow> string" where
  "show_nat n = (if n < 10 then [digit_char n] else show_nat (n div 10) @ [digit_char (n mod 10)])"
  by pat_completeness auto
termination
  by (relation "measure id") auto

declare show_nat.simps [simp del]

definition show_int :: "int \<Rightarrow> string" where
  "show_int i = (if i < 0 then CHR ''-'' # show_nat (nat (- i)) else show_nat (nat i))"

fun join_with :: "string \<Rightarrow> string list \<Rightarrow> string" where
  "join_with sep [] = []"
| "join_with sep [s] = s"
| "join_with sep (s # t # ss) = s @ sep @ join_with sep (t # ss)"

text \<open>
  \<^verbatim>\<open>value.toString()\<close>: a TypeError (\<open>None\<close>) on \<^verbatim>\<open>null\<close> and \<^verbatim>\<open>undefined\<close>; an array
  joins its elements with commas, \<^verbatim>\<open>null\<close> and \<^verbatim>\<open>undefined\<close> elements giving the empty string.
\<close>

fun to_text :: "jsval \<Rightarrow> string" where
  "to_text JUndefined = []"
| "to_text JNull = []"
| "to_text (JBool b) = (if b then ''true'' else ''false'')"
| "to_text (JNum n) = show_int n"
| "to_text (JStr s) = s"
| "to_text (JArr vs) = join_with '','' (map to_text vs)"
| "to_text (JObj kv) = ''[object Object]''"

definition js_toString :: "jsval \<Rightarrow> string option" where
  "js_toString v = (case v of JUndefined \<Rightarrow> None | JNull \<Rightarrow> None | _ \<Rightarrow> Some (to_text v))"

subsection \<open>Property access (lodash and plain)\<close>

text \<open>\<^verbatim>\<open>_.has(value, key)\<close>: an own property of an object; no other value carries the keys used here.\<close>

definition has_key :: "jsval \<Rightarrow> string \<Rightarrow> bool" where
  "has_key v k = (case v of JObj kv \<Rightarrow> k \<in> set (map fst kv) | _ \<Rightarrow> False)"

text \<open>\<^verbatim>\<open>value[key]\<close> on a value that is not \<^verbatim>\<open>null\<close> or \<^verbatim>\<open>undefined\<close>.\<close>

definition get_prop :: "jsval \<Rightarrow> string \<Rightarrow> jsval" where
  "get_prop v k = (case v of JObj kv \<Rightarrow> (case map_of kv k of Some x \<Rightarrow> x | None \<Rightarrow> JUndefined)
                   | _ \<Rightarrow> JUndefined)"

text \<open>The own properties of a value, as the lodash pickers see them (none on a non-object).\<close>

definition props_of :: "jsval \<Rightarrow> obj" where
  "props_of v = (case v of JObj kv \<Rightarrow> kv | _ \<Rightarrow> [])"

text \<open>\<^verbatim>\<open>_.omit(value, [key])\<close>.\<close>

definition omit :: "jsval \<Rightarrow> string \<Rightarrow> jsval" where
  "omit v k = JObj (filter (\<lambda>(k', x). k' \<noteq> k) (props_of v))"

text \<open>\<^verbatim>\<open>typeof val !== 'object' || Array.isArray(val) || val === null\<close> is false.\<close>

definition is_plain_object :: "jsval \<Rightarrow> bool" where
  "is_plain_object v = (case v of JObj kv \<Rightarrow> True | _ \<Rightarrow> False)"

text \<open>Truthiness of a value, as an \<^verbatim>\<open>if (value)\<close> test reads it.\<close>

definition truthy :: "jsval \<Rightarrow> bool" where
  "truthy v = (case v of JUndefined \<Rightarrow> False | JNull \<Rightarrow> False | JBool b \<Rightarrow> b
               | JNum n \<Rightarrow> n \<noteq> 0 | JStr s \<Rightarrow> s \<noteq> [] | _ \<Rightarrow> True)"

section \<open>Model metadata\<close>

text \<open>
  An attribute of \<^verbatim>\<open>model.attributes\<close>. \<open>required\<close> and \<open>repeatable\<close> hold
  \<^verbatim>\<open>required === true\<close> and \<^verbatim>\<open>repeatable === true\<close>; \<open>attr_min\<close> and \<open>attr_max\<close> are
  \<^verbatim>\<open>min\<close> and \<^verbatim>\<open>max\<close>, \<open>None\<close> when the attribute has none.
\<close>

record attribute =
  atype :: string
  component :: string
  repeatable :: bool
  required :: bool
  attr_min :: "int option"
  attr_max :: "int option"
  components :: "string list"

text \<open>A limit as the condition \<^verbatim>\<open>min && ...\<close> reads it: absent and zero are both falsy.\<close>

definition configured :: "int option \<Rightarrow> bool" where
  "configured lim = (case lim of None \<Rightarrow> False | Some n \<Rightarrow> n \<noteq> 0)"

definition limit_text :: "int option \<Rightarrow> string" where
  "limit_text lim = (case lim of None \<Rightarrow> ''undefined'' | Some n \<Rightarrow> show_int n)"

section \<open>Validators\<close>

text \<open>\<^verbatim>\<open>validateRepeatableInput(value, { key, min, max, required })\<close>, lines 715-743.\<close>

definition validateRepeatableInput :: "jsval \<Rightarrow> string \<Rightarrow> attribute \<Rightarrow> error + unit" where
  "validateRepeatableInput v key attr =
     (case v of
        JArr vs \<Rightarrow>
          if \<not> list_all is_plain_object vs then
            Inl (http_error 400
              (''Component '' @ key @ '' has invalid items. Expected each items to be objects''))
          else if (required attr \<or> (\<not> required attr \<and> length vs > 0))
                  \<and> configured (attr_min attr)
                  \<and> (case attr_min attr of Some m \<Rightarrow> int (length vs) < m | None \<Rightarrow> False) then
            Inl (http_error 400
              (''Component '' @ key @ '' must contain at least '' @ limit_text (attr_min attr) @ '' items''))
          else if configured (attr_max attr)
                  \<and> (case attr_max attr of Some m \<Rightarrow> int (length vs) > m | None \<Rightarrow> False) then
            Inl (http_error 400
              (''Component '' @ key @ '' must contain at most '' @ limit_text (attr_max attr) @ '' items''))
          else Inr ()
      | _ \<Rightarrow> Inl (http_error 400 (''Component '' @ key @ '' is repetable. Expected an array'')))"

text \<open>\<^verbatim>\<open>validateNonRepeatableInput(value, { key, required })\<close>, lines 745-757.\<close>

definition validateNonRepeatableInput :: "jsval \<Rightarrow> string \<Rightarrow> attribute \<Rightarrow> error + unit" where
  "validateNonRepeatableInput v key attr =
     (if \<not> (is_plain_object v \<or> v = JNull) then
        Inl (http_error 400 (''Component '' @ key @ '' should be an object''))
      else if required attr \<and> v = JNull then
        Inl (http_error 400 (''Component '' @ key @ '' is required''))
      else Inr ())"

text \<open>
  The body of the \<^verbatim>\<open>forEach\<close> of \<^verbatim>\<open>validateDynamiczoneInput\<close> on one item, lines 767-787:
  the error it throws, if any.
\<close>

definition dynamiczone_item_error :: "string \<Rightarrow> string list \<Rightarrow> jsval \<Rightarrow> error option" where
  "dynamiczone_item_error key comps val =
     (if \<not> is_plain_object val then
        Some (http_error 400
          (''Dynamiczone '' @ key @ '' has invalid items. Expected each items to be objects''))
      else if \<not> has_key val ''__component'' then
        Some (http_error 400
          (''Dynamiczone '' @ key @ '' has invalid items. Expected each items to have a valid __component key''))
      else if \<not> (case get_prop val ''__component'' of JStr c \<Rightarrow> c \<in> set comps | _ \<Rightarrow> False) then
        Some (http_error 400
          (''Dynamiczone '' @ key @ '' has invalid items. Each item must have a __component key that is present in the attribute definition''))
      else None)"

text \<open>The \<^verbatim>\<open>forEach\<close> stops at the first item that throws.\<close>

fun first_error :: "('a \<Rightarrow> error option) \<Rightarrow> 'a list \<Rightarrow> error option" where
  "first_error f [] = None"
| "first_error f (x # xs) = (case f x of Some e \<Rightarrow> Some e | None \<Rightarrow> first_error f xs)"

text \<open>\<^verbatim>\<open>validateDynamiczoneInput(value, { key, min, max, components, required })\<close>, lines 759-800.\<close>

definition validateDynamiczoneInput :: "jsval \<Rightarrow> string \<Rightarrow> attribute \<Rightarrow> error + unit" where
  "validateDynamiczoneInput v key attr =
     (case v of
        JArr vs \<Rightarrow>
          (case first_error (dynamiczone_item_error key (components attr)) vs of
             Some e \<Rightarrow> Inl e
           | None \<Rightarrow>
               if (required attr \<or> (\<not> required attr \<and> length vs > 0))
                  \<and> configured (attr_min attr)
                  \<and> (case attr_min attr of Some m \<Rightarrow> int (length vs) < m | None \<Rightarrow> False) then
                 Inl (http_error 400
                   (''Dynamiczone '' @ key @ '' must contain at least '' @ limit_text (attr_min attr) @ '' items''))
               else if configured (attr_max attr)
                       \<and> (case attr_max attr of Some m \<Rightarrow> int (length vs) > m | None \<Rightarrow> False) then
                 Inl (http_error 400
                   (''Dynamiczone '' @ key @ '' must contain at most '' @ limit_text (attr_max attr) @ '' items''))
               else Inr ())
      | _ \<Rightarrow> Inl (http_error 400 (''Dynamiczone '' @ key @ '' is invalid. Expected an array'')))"

record association =
  alias_of :: string
  nature :: string

text \<open>
  The metadata of a model or of a component model, as the model registry gives it.
  \<open>raw_attributes\<close> is \<^verbatim>\<open>model._attributes\<close>; \<open>allAttributes\<close> holds the keys of
  \<^verbatim>\<open>model.allAttributes\<close>; \<open>timestamps\<close> is \<^verbatim>\<open>model.options.timestamps\<close> when it is an
  array and empty otherwise; \<open>joinTable\<close> names the table of \<^verbatim>\<open>model.componentsJoinModel\<close>.
\<close>

record model =
  uid :: string
  collectionName :: string
  primaryKey :: string
  connection :: string
  client :: string
  attributes :: "(string \<times> attribute) list"
  raw_attributes :: "(string \<times> attribute) list"
  allAttributes :: "string list"
  associations :: "association list"
  timestamps :: "string list"
  joinTable :: string

text \<open>
  The part of the \<^verbatim>\<open>strapi\<close> object that is read: the component registry
  \<^verbatim>\<open>strapi.components\<close> and, for every connection name, the client of its configuration
  (\<^verbatim>\<open>context.client.config.client\<close>).
\<close>

record strapi =
  strapi_components :: "(string \<times> model) list"
  connections :: "(string \<times> string) list"

section \<open>The store\<close>

text \<open>
  The relational backend behind Bookshelf. A row of a model's table has its key (the
  column \<^verbatim>\<open>id\<close>, assigned by the backend) and its other columns. A join record is a
  row of a components join table. A link is a relation value persisted by the relation
  collaborator.
\<close>

record row =
  tbl :: string
  rid :: nat
  cols :: obj

record joinrow =
  jtbl :: string
  fk :: nat
  component_type :: string
  component_id :: nat
  field :: string
  order :: nat

record link =
  ltbl :: string
  lid :: string
  lalias :: string
  lvalue :: jsval

record db =
  rows :: "row list"
  joins :: "joinrow list"
  links :: "link list"
  seq :: "string \<Rightarrow> nat"

text \<open>
  The backend with its open transactions: the committed data, the working copy of every
  open transaction handle, and the next handle.
\<close>

record world =
  committed :: db
  scopes :: "nat \<Rightarrow> db option"
  next_trx :: nat

text \<open>
  What a statement issued with the option \<^verbatim>\<open>transacting\<close> reads and writes: the working
  copy of that transaction, or the committed data when there is no (open) handle.
\<close>

definition view :: "nat option \<Rightarrow> world \<Rightarrow> db" where
  "view t w = (case t of None \<Rightarrow> committed w
               | Some h \<Rightarrow> (case scopes w h of Some d \<Rightarrow> d | None \<Rightarrow> committed w))"

definition set_view :: "nat option \<Rightarrow> db \<Rightarrow> world \<Rightarrow> world" where
  "set_view t d w = (case t of None \<Rightarrow> w\<lparr>committed := d\<rparr>
               | Some h \<Rightarrow> (case scopes w h of Some _ \<Rightarrow> w\<lparr>scopes := (scopes w)(h \<mapsto> d)\<rparr>
                            | None \<Rightarrow> w\<lparr>committed := d\<rparr>))"

subsection \<open>Asynchronous operations\<close>

text \<open>
  An asynchronous function is a function of the world that resolves (\<open>Inr\<close>) or rejects
  (\<open>Inl\<close>); either way the world keeps the writes made so far. \<^verbatim>\<open>await\<close> is \<open>io_bind\<close>.
\<close>

type_synonym 'a io = "world \<Rightarrow> (error + 'a) \<times> world"

definition io_return :: "'a \<Rightarrow> 'a io" where
  "io_return x w = (Inr x, w)"

definition io_throw :: "error \<Rightarrow> 'a io" where
  "io_throw e w = (Inl e, w)"

definition io_bind :: "'a io \<Rightarrow> ('a \<Rightarrow> 'b io) \<Rightarrow> 'b io" where
  "io_bind m f w = (case m w of (Inl e, w') \<Rightarrow> (Inl e, w') | (Inr a, w') \<Rightarrow> f a w')"

text \<open>A synchronous check that may throw.\<close>

definition io_check :: "error + 'a \<Rightarrow> 'a io" where
  "io_check r w = (r, w)"

definition read_db :: "nat option \<Rightarrow> (db \<Rightarrow> 'a) \<Rightarrow> 'a io" where
  "read_db t f w = (Inr (f (view t w)), w)"

definition run_db :: "nat option \<Rightarrow> (db \<Rightarrow> (error + 'a) \<times> db) \<Rightarrow> 'a io" where
  "run_db t f w = (case f (view t w) of (r, d) \<Rightarrow> (r, set_view t d w))"

text \<open>A \<^verbatim>\<open>for\<close> loop with \<^verbatim>\<open>await\<close> in its body: it stops at the first rejection.\<close>

fun for_each :: "('a \<Rightarrow> unit io) \<Rightarrow> 'a list \<Rightarrow> unit io" where
  "for_each f [] = io_return ()"
| "for_each f (x # xs) = io_bind (f x) (\<lambda>_. for_each f xs)"

text \<open>
  \<^verbatim>\<open>Promise.all(items.map(f))\<close>: the tasks are started in the order of the array and each
  runs to its end before the next one (they target different rows); the first rejection
  is the rejection of the whole.
\<close>

fun promise_all :: "('a \<Rightarrow> 'b io) \<Rightarrow> 'a list \<Rightarrow> 'b list io" where
  "promise_all f [] = io_return []"
| "promise_all f (x # xs) = io_bind (f x) (\<lambda>y. io_bind (promise_all f xs) (\<lambda>ys. io_return (y # ys)))"

text \<open>The items of an array with their indices, as \<^verbatim>\<open>map((value, idx) => ...)\<close> passes them.\<close>

definition indexed :: "jsval \<Rightarrow> (nat \<times> jsval) list" where
  "indexed v = (case v of JArr vs \<Rightarrow> enumerate 0 vs | _ \<Rightarrow> [])"

subsection \<open>The transaction provider\<close>

text \<open>
  \<^verbatim>\<open>db.transaction(trx => fn(trx))\<close> of the connection (knex): a new handle with a working
  copy of the committed data; committed when the promise of \<^verbatim>\<open>fn\<close> resolves, dropped when
  it rejects.
\<close>

definition transaction :: "(nat option \<Rightarrow> 'a io) \<Rightarrow> 'a io" where
  "transaction fn w =
     (let h = next_trx w;
          w1 = w\<lparr>scopes := (scopes w)(h \<mapsto> committed w), next_trx := Suc h\<rparr>
      in case fn (Some h) w1 of
           (Inl e, w2) \<Rightarrow> (Inl e, w2\<lparr>scopes := (scopes w2)(h := None)\<rparr>)
         | (Inr a, w2) \<Rightarrow>
             (Inr a, w2\<lparr>committed := view (Some h) w2, scopes := (scopes w2)(h := None)\<rparr>))"

subsection \<open>Rows and statements (Bookshelf)\<close>

definition to_json :: "row \<Rightarrow> jsval" where
  "to_json r = JObj ((''id'', JNum (int (rid r))) # cols r)"

definition column :: "row \<Rightarrow> string \<Rightarrow> jsval" where
  "column r k = get_prop (to_json r) k"

text \<open>A column compared with a bound value: equal as text (a key bound as \<^verbatim>\<open>"5"\<close> finds 5).\<close>

definition same_value :: "jsval \<Rightarrow> jsval \<Rightarrow> bool" where
  "same_value c v = (case js_toString c of None \<Rightarrow> False
                     | Some a \<Rightarrow> (case js_toString v of None \<Rightarrow> False | Some b \<Rightarrow> a = b))"

definition where_matches :: "obj \<Rightarrow> row \<Rightarrow> bool" where
  "where_matches params r = list_all (\<lambda>(k, v). same_value (column r k) v) params"

definition table_rows :: "string \<Rightarrow> db \<Rightarrow> row list" where
  "table_rows t d = filter (\<lambda>r. tbl r = t) (rows d)"

text \<open>\<^verbatim>\<open>model.where(params).fetch({ transacting })\<close>: the first matching row, or null.\<close>

definition where_fetch :: "model \<Rightarrow> obj \<Rightarrow> nat option \<Rightarrow> row option io" where
  "where_fetch m params t =
     read_db t (\<lambda>d. case filter (where_matches params) (table_rows (collectionName m) d) of
                       [] \<Rightarrow> None | r # _ \<Rightarrow> Some r)"

text \<open>\<^verbatim>\<open>model.forge(data).save(null, { transacting })\<close>: an insert; the backend assigns the key.\<close>

definition forge_save :: "model \<Rightarrow> obj \<Rightarrow> nat option \<Rightarrow> row io" where
  "forge_save m data t =
     run_db t (\<lambda>d. let r = \<lparr>tbl = collectionName m, rid = seq d (collectionName m), cols = data\<rparr>
                    in (Inr r, d\<lparr>rows := rows d @ [r],
                                seq := (seq d)(collectionName m := Suc (seq d (collectionName m)))\<rparr>))"

text \<open>One column set in a record: replaced where present, added at the end otherwise.\<close>

fun set_col :: "string \<Rightarrow> jsval \<Rightarrow> obj \<Rightarrow> obj" where
  "set_col k v [] = [(k, v)]"
| "set_col k v (p # ps) = (if fst p = k then (k, v) # ps else p # set_col k v ps)"

definition patch :: "obj \<Rightarrow> obj \<Rightarrow> obj" where
  "patch cs data = fold (\<lambda>(k, v). set_col k v) data cs"

text \<open>
  \<^verbatim>\<open>entry.save(data, { transacting, method: 'update', patch: true })\<close>: only the columns of
  \<^verbatim>\<open>data\<close> are written; no row updated is an error (\<^verbatim>\<open>require\<close> is on).
\<close>

definition entry_save :: "row \<Rightarrow> obj \<Rightarrow> nat option \<Rightarrow> row io" where
  "entry_save entry data t =
     run_db t (\<lambda>d.
       if list_ex (\<lambda>r. tbl r = tbl entry \<and> rid r = rid entry) (rows d) then
         (Inr (entry\<lparr>cols := patch (cols entry) data\<rparr>),
          d\<lparr>rows := map (\<lambda>r. if tbl r = tbl entry \<and> rid r = rid entry
                              then r\<lparr>cols := patch (cols r) data\<rparr> else r) (rows d)\<rparr>)
       else (Inl (type_error ''No Rows Updated''), d))"

text \<open>\<^verbatim>\<open>model.where({ id: entry.id }).destroy({ transacting, require: false })\<close>.\<close>

definition where_destroy :: "model \<Rightarrow> nat \<Rightarrow> nat option \<Rightarrow> unit io" where
  "where_destroy m i t =
     run_db t (\<lambda>d. (Inr (), d\<lparr>rows := filter (\<lambda>r. \<not> (tbl r = collectionName m \<and> rid r = i)) (rows d)\<rparr>))"

text \<open>\<^verbatim>\<open>joinModel.forge().save({ ... }, { transacting })\<close>: a new join record.\<close>

definition join_forge_save :: "joinrow \<Rightarrow> nat option \<Rightarrow> unit io" where
  "join_forge_save j t = run_db t (\<lambda>d. (Inr (), d\<lparr>joins := joins d @ [j]\<rparr>))"

text \<open>
  \<^verbatim>\<open>joinModel.where({ [foreignKey], component_type, component_id, field }).save({ order },
  { transacting, patch: true, require: false })\<close>: the order of the matching join records is
  written; no matching record is not an error.
\<close>

definition join_where_save :: "string \<Rightarrow> nat \<Rightarrow> string \<Rightarrow> nat \<Rightarrow> string \<Rightarrow> nat \<Rightarrow> nat option \<Rightarrow> unit io" where
  "join_where_save jt e ct ci key ord t =
     run_db t (\<lambda>d. (Inr (), d\<lparr>joins := map (\<lambda>j. if jtbl j = jt \<and> fk j = e \<and> component_type j = ct
                                                    \<and> component_id j = ci \<and> field j = key
                                                 then j\<lparr>order := ord\<rparr> else j) (joins d)\<rparr>))"

text \<open>\<^verbatim>\<open>joinModel.where({ [foreignKey]: entry.id, field: key }).fetchAll({ transacting })\<close>.\<close>

definition join_fetchAll :: "string \<Rightarrow> nat \<Rightarrow> string \<Rightarrow> nat option \<Rightarrow> joinrow list io" where
  "join_fetchAll jt e key t =
     read_db t (\<lambda>d. filter (\<lambda>j. jtbl j = jt \<and> fk j = e \<and> field j = key) (joins d))"

text \<open>\<^verbatim>\<open>joinModel.where({ [foreignKey]: entry.id, field: key }).destroy({ transacting, require: false })\<close>.\<close>

definition join_where_destroy :: "string \<Rightarrow> nat \<Rightarrow> string \<Rightarrow> nat option \<Rightarrow> unit io" where
  "join_where_destroy jt e key t =
     run_db t (\<lambda>d. (Inr (), d\<lparr>joins := filter (\<lambda>j. \<not> (jtbl j = jt \<and> fk j = e \<and> field j = key)) (joins d)\<rparr>))"

text \<open>A \<^verbatim>\<open>destroy\<close> of the join records that a query-builder condition selects.\<close>

definition join_query_destroy :: "string \<Rightarrow> (joinrow \<Rightarrow> bool) \<Rightarrow> nat option \<Rightarrow> unit io" where
  "join_query_destroy jt cond t =
     run_db t (\<lambda>d. (Inr (), d\<lparr>joins := filter (\<lambda>j. \<not> (jtbl j = jt \<and> cond j)) (joins d)\<rparr>))"

subsection \<open>Collaborators of the same repository\<close>

text \<open>
  Modelled from the spec: the filter translation collaborator (\<^verbatim>\<open>convertRestQueryParams\<close>
  and \<^verbatim>\<open>buildQuery\<close> of strapi-utils), whose code is not among the sources. Of the
  REST-style parameters, the ones this file builds itself are interpreted: equality on a
  column, membership for a key ending in \<^verbatim>\<open>_in\<close>, and \<^verbatim>\<open>_limit\<close>.
\<close>

definition is_in_key :: "string \<Rightarrow> bool" where
  "is_in_key k = (length k > 3 \<and> drop (length k - 3) k = ''_in'')"

definition filter_matches :: "obj \<Rightarrow> row \<Rightarrow> bool" where
  "filter_matches params r =
     list_all (\<lambda>(k, v).
        if k = ''_limit'' then True
        else if is_in_key k then
          (case v of JArr vs \<Rightarrow> list_ex (same_value (column r (take (length k - 3) k))) vs
           | _ \<Rightarrow> same_value (column r (take (length k - 3) k)) v)
        else same_value (column r k) v) params"

definition apply_limit :: "obj \<Rightarrow> 'a list \<Rightarrow> 'a list" where
  "apply_limit params xs = (case map_of params ''_limit'' of Some (JNum n) \<Rightarrow> take (nat n) xs | _ \<Rightarrow> xs)"

text \<open>
  Modelled from the spec: the relation persistence collaborator \<^verbatim>\<open>model.updateRelations\<close>
  (the connector's relations module, not among the sources): it persists the given
  relation values of the entity and resolves with the entity as stored, or null.
\<close>

definition relate :: "model \<Rightarrow> jsval \<Rightarrow> obj \<Rightarrow> link list \<Rightarrow> link list" where
  "relate m i vals ls =
     filter (\<lambda>l. \<not> (ltbl l = collectionName m \<and> lid l = to_text i \<and> lalias l \<in> set (map fst vals))) ls
     @ map (\<lambda>(a, v). \<lparr>ltbl = collectionName m, lid = to_text i, lalias = a, lvalue = v\<rparr>) vals"

definition updateRelations :: "model \<Rightarrow> jsval \<Rightarrow> obj \<Rightarrow> nat option \<Rightarrow> jsval io" where
  "updateRelations m i vals t =
     run_db t (\<lambda>d.
       (Inr (case filter (\<lambda>r. same_value (column r ''id'') i) (table_rows (collectionName m) d) of
               [] \<Rightarrow> JNull | r # _ \<Rightarrow> to_json r),
        d\<lparr>links := relate m i vals (links d)\<rparr>))"


section \<open>The query builder\<close>

text \<open>
  \<^verbatim>\<open>createQueryBuilder({ model, modelKey, strapi })\<close>. The functions below take the model
  and the \<^verbatim>\<open>strapi\<close> object as arguments. \<^verbatim>\<open>strapi.query(uid)\<close> is the query builder of
  another model; the three functions of it that are called are passed as a record.
\<close>

record cquery =
  q_create :: "model \<Rightarrow> jsval \<Rightarrow> nat option \<Rightarrow> jsval io"
  q_update :: "model \<Rightarrow> obj \<Rightarrow> jsval \<Rightarrow> nat option \<Rightarrow> jsval io"
  q_delete :: "model \<Rightarrow> obj \<Rightarrow> nat option \<Rightarrow> jsval io"

text \<open>Lines 12-16 and 26.\<close>

definition assocKeys :: "model \<Rightarrow> string list" where
  "assocKeys m = map alias_of (associations m)"

definition componentKeys :: "model \<Rightarrow> string list" where
  "componentKeys m =
     map fst (filter (\<lambda>(k, a). atype a \<in> set [''dynamiczone'', ''component'']) (attributes m))"

definition excludedKeys :: "model \<Rightarrow> string list" where
  "excludedKeys m = assocKeys m @ componentKeys m"

text \<open>\<^verbatim>\<open>pickRelations\<close>, lines 21-23.\<close>

definition pickRelations :: "model \<Rightarrow> jsval \<Rightarrow> obj" where
  "pickRelations m vals = filter (\<lambda>(k, v). k \<in> set (assocKeys m)) (props_of vals)"

text \<open>\<^verbatim>\<open>selectAttributes\<close>, lines 28-36.\<close>

definition selectAttributes :: "model \<Rightarrow> jsval \<Rightarrow> obj" where
  "selectAttributes m vals =
     filter (\<lambda>(k, v). if k \<in> set (timestamps m) then False
                      else k \<notin> set (excludedKeys m) \<and> k \<in> set (allAttributes m)) (props_of vals)"

text \<open>\<^verbatim>\<open>wrapTransaction\<close>, lines 38-45.\<close>

definition wrapTransaction :: "strapi \<Rightarrow> model \<Rightarrow> (nat option \<Rightarrow> 'a io) \<Rightarrow> nat option \<Rightarrow> 'a io" where
  "wrapTransaction S m fn transacting =
     (if map_of (connections S) (connection m) = Some ''mssql'' then fn transacting
      else case transacting of
             Some h \<Rightarrow> fn transacting
           | None \<Rightarrow> (case map_of (connections S) (connection m) of
                        Some c \<Rightarrow> transaction fn
                      | None \<Rightarrow> io_throw (type_error ''Cannot read property transaction of undefined'')))"

text \<open>\<^verbatim>\<open>find\<close>, lines 58-68. The populated relations are not materialised.\<close>

definition find_entries :: "model \<Rightarrow> obj \<Rightarrow> nat option \<Rightarrow> jsval list io" where
  "find_entries m params t =
     read_db t (\<lambda>d. map to_json
       (apply_limit params (filter (filter_matches params) (table_rows (collectionName m) d))))"

text \<open>\<^verbatim>\<open>findOne\<close>, lines 50-53; \<^verbatim>\<open>{ ...params, _limit: 1 }\<close> puts the limit first.\<close>

definition findOne :: "model \<Rightarrow> obj \<Rightarrow> nat option \<Rightarrow> jsval io" where
  "findOne m params t =
     io_bind (find_entries m ((''_limit'', JNum 1) # params) t)
       (\<lambda>entries. io_return (case entries of [] \<Rightarrow> JNull | e # _ \<Rightarrow> e))"

text \<open>\<^verbatim>\<open>String(value)\<close>, as a template literal and a property key convert a value.\<close>

definition template_text :: "jsval \<Rightarrow> string" where
  "template_text v = (case v of JUndefined \<Rightarrow> ''undefined'' | JNull \<Rightarrow> ''null'' | _ \<Rightarrow> to_text v)"

text \<open>\<^verbatim>\<open>strapi.components[component]\<close>.\<close>

definition component_model :: "strapi \<Rightarrow> jsval \<Rightarrow> model option" where
  "component_model S c = map_of (strapi_components S) (template_text c)"

text \<open>\<^verbatim>\<open>component.id\<close> of a resolved entity: a TypeError (\<open>None\<close>) when there is none.\<close>

definition json_id :: "jsval \<Rightarrow> nat option" where
  "json_id v = (case get_prop v ''id'' of JNum n \<Rightarrow> (if 0 \<le> n then Some (nat n) else None) | _ \<Rightarrow> None)"

subsection \<open>Creating components\<close>

text \<open>\<^verbatim>\<open>createComponentAndLink\<close>, lines 220-236.\<close>

definition createComponentAndLink ::
  "cquery \<Rightarrow> model \<Rightarrow> row \<Rightarrow> nat option \<Rightarrow> model option \<Rightarrow> jsval \<Rightarrow> string \<Rightarrow> nat \<Rightarrow> unit io" where
  "createComponentAndLink cq m entry transacting componentModel val key ord =
     (case componentModel of
        None \<Rightarrow> io_throw (type_error ''Cannot read property uid of undefined'')
      | Some cm \<Rightarrow>
          io_bind (q_create cq cm val transacting) (\<lambda>comp.
            case json_id comp of
              None \<Rightarrow> io_throw (type_error ''Cannot read property id'')
            | Some ci \<Rightarrow>
                join_forge_save \<lparr>jtbl = joinTable m, fk = rid entry,
                                 component_type = collectionName cm, component_id = ci,
                                 field = key, order = ord\<rparr> transacting))"

text \<open>The body of the loop of \<^verbatim>\<open>createComponents\<close> for one key, lines 239-311.\<close>

definition createComponents_key ::
  "cquery \<Rightarrow> strapi \<Rightarrow> model \<Rightarrow> row \<Rightarrow> jsval \<Rightarrow> nat option \<Rightarrow> string \<Rightarrow> attribute \<Rightarrow> unit io" where
  "createComponents_key cq S m entry vals transacting key attr =
     (if atype attr = ''component'' then
        (let componentModel = map_of (strapi_components S) (component attr) in
         if required attr \<and> \<not> has_key vals key then
           io_throw (http_error 400 (''Component '' @ key @ '' is required''))
         else if \<not> has_key vals key then io_return ()
         else
           (let componentValue = get_prop vals key in
            if repeatable attr then
              io_bind (io_check (validateRepeatableInput componentValue key attr)) (\<lambda>_.
                for_each (\<lambda>(idx, val).
                    createComponentAndLink cq m entry transacting componentModel val key (idx + 1))
                  (indexed componentValue))
            else
              io_bind (io_check (validateNonRepeatableInput componentValue key attr)) (\<lambda>_.
                if componentValue = JNull then io_return ()
                else createComponentAndLink cq m entry transacting componentModel componentValue key 1)))
      else if atype attr = ''dynamiczone'' then
        (if required attr \<and> \<not> has_key vals key then
           io_throw (http_error 400 (''Dynamiczone '' @ key @ '' is required''))
         else if \<not> has_key vals key then io_return ()
         else
           (let dynamiczoneValues = get_prop vals key in
            io_bind (io_check (validateDynamiczoneInput dynamiczoneValues key attr)) (\<lambda>_.
              for_each (\<lambda>(idx, val).
                  createComponentAndLink cq m entry transacting
                    (component_model S (get_prop val ''__component''))
                    (omit val ''__component'') key (idx + 1))
                (indexed dynamiczoneValues))))
      else io_return ())"

text \<open>\<^verbatim>\<open>createComponents\<close>, lines 214-313.\<close>

definition createComponents :: "cquery \<Rightarrow> strapi \<Rightarrow> model \<Rightarrow> row \<Rightarrow> jsval \<Rightarrow> nat option \<Rightarrow> unit io" where
  "createComponents cq S m entry vals transacting =
     (if length (componentKeys m) = 0 then io_return ()
      else for_each (\<lambda>key. case map_of (attributes m) key of
                              None \<Rightarrow> io_return ()
                            | Some attr \<Rightarrow> createComponents_key cq S m entry vals transacting key attr)
             (componentKeys m))"

subsection \<open>Deleting the components an update leaves out\<close>

text \<open>
  \<^verbatim>\<open>componentArr.filter(el => _.has(el, pk)).map(el => el[pk].toString())\<close>, lines 534-536.
\<close>

fun ids_to_keep :: "string \<Rightarrow> jsval list \<Rightarrow> error + string list" where
  "ids_to_keep pk [] = Inr []"
| "ids_to_keep pk (el # els) =
     (if has_key el pk then
        (case js_toString (get_prop el pk) of
           None \<Rightarrow> Inl (type_error ''Cannot read property toString'')
         | Some s \<Rightarrow> (case ids_to_keep pk els of Inl e \<Rightarrow> Inl e | Inr ss \<Rightarrow> Inr (s # ss)))
      else ids_to_keep pk els)"

definition not_related :: "string \<Rightarrow> error" where
  "not_related key =
     http_error 400 (''Some of the provided components in '' @ key @ '' are not related to the entity'')"

text \<open>\<^verbatim>\<open>deleteOldComponents\<close>, lines 527-567.\<close>

definition deleteOldComponents ::
  "cquery \<Rightarrow> model \<Rightarrow> row \<Rightarrow> jsval \<Rightarrow> string \<Rightarrow> model option \<Rightarrow> nat option \<Rightarrow> unit io" where
  "deleteOldComponents cq m entry componentValue key componentModel transacting =
     (let componentArr = (case componentValue of JArr vs \<Rightarrow> vs | _ \<Rightarrow> [componentValue]) in
      io_bind (io_check (case componentArr of
                           [] \<Rightarrow> Inr []
                         | _ \<Rightarrow> (case componentModel of
                                   None \<Rightarrow> Inl (type_error ''Cannot read property primaryKey of undefined'')
                                 | Some cm \<Rightarrow> ids_to_keep (primaryKey cm) componentArr))) (\<lambda>idsToKeep.
      io_bind (join_fetchAll (joinTable m) (rid entry) key transacting) (\<lambda>els.
        let allIds = map (\<lambda>el. show_nat (component_id el)) els in
        if \<not> list_all (\<lambda>i. i \<in> set allIds) idsToKeep then io_throw (not_related key)
        else
          (let idsToDelete = filter (\<lambda>i. i \<notin> set idsToKeep) allIds in
           if length idsToDelete > 0 then
             io_bind (join_query_destroy (joinTable m)
                        (\<lambda>j. show_nat (component_id j) \<in> set idsToDelete \<and> field j = key) transacting) (\<lambda>_.
               case componentModel of
                 None \<Rightarrow> io_throw (type_error ''Cannot read property uid of undefined'')
               | Some cm \<Rightarrow>
                   io_bind (q_delete cq cm [(primaryKey cm @ ''_in'', JArr (map JStr idsToDelete))] transacting)
                     (\<lambda>_. io_return ()))
           else io_return ()))))"

text \<open>The \<^verbatim>\<open>reduce\<close> of lines 455-466.\<close>

fun dz_ids_to_keep :: "strapi \<Rightarrow> jsval list \<Rightarrow> error + (string \<times> model) list" where
  "dz_ids_to_keep S [] = Inr []"
| "dz_ids_to_keep S (val # vs) =
     (case component_model S (get_prop val ''__component'') of
        None \<Rightarrow> Inl (type_error ''Cannot read property primaryKey of undefined'')
      | Some cm \<Rightarrow>
          if has_key val (primaryKey cm) then
            (case js_toString (get_prop val (primaryKey cm)) of
               None \<Rightarrow> Inl (type_error ''Cannot read property toString'')
             | Some s \<Rightarrow> (case dz_ids_to_keep S vs of Inl e \<Rightarrow> Inl e | Inr ks \<Rightarrow> Inr ((s, cm) # ks)))
          else dz_ids_to_keep S vs)"

text \<open>The component whose collection a join record names, lines 474-481.\<close>

definition component_of_type :: "strapi \<Rightarrow> string \<Rightarrow> model option" where
  "component_of_type S ct =
     (case List.find (\<lambda>(k, c). collectionName c = ct) (strapi_components S) of
        None \<Rightarrow> None
      | Some (k, c) \<Rightarrow> map_of (strapi_components S) k)"

text \<open>
  \<^verbatim>\<open>allIds.find(el => el.id === id && el.component.uid === component.uid)\<close>, line 486:
  whether there is such an element; reading \<^verbatim>\<open>uid\<close> of an unknown component throws.
\<close>

fun all_has :: "(string \<times> model option) list \<Rightarrow> string \<times> model \<Rightarrow> error + bool" where
  "all_has [] k = Inr False"
| "all_has (el # els) k =
     (if fst el = fst k then
        (case snd el of
           None \<Rightarrow> Inl (type_error ''Cannot read property uid of undefined'')
         | Some c \<Rightarrow> if uid c = uid (snd k) then Inr True else all_has els k)
      else all_has els k)"

text \<open>The \<^verbatim>\<open>forEach\<close> of lines 485-493.\<close>

fun dz_verify :: "string \<Rightarrow> (string \<times> model option) list \<Rightarrow> (string \<times> model) list \<Rightarrow> error + unit" where
  "dz_verify key allIds [] = Inr ()"
| "dz_verify key allIds (k # ks) =
     (case all_has allIds k of
        Inl e \<Rightarrow> Inl e
      | Inr False \<Rightarrow> Inl (not_related key)
      | Inr True \<Rightarrow> dz_verify key allIds ks)"

text \<open>\<^verbatim>\<open>idsToKeep.find(el => el.id === id && el.component.uid === component.uid)\<close>, line 496.\<close>

fun keep_has :: "(string \<times> model) list \<Rightarrow> string \<times> model option \<Rightarrow> error + bool" where
  "keep_has [] a = Inr False"
| "keep_has (el # els) a =
     (if fst el = fst a then
        (case snd a of
           None \<Rightarrow> Inl (type_error ''Cannot read property uid of undefined'')
         | Some c \<Rightarrow> if uid (snd el) = uid c then Inr True else keep_has els a)
      else keep_has els a)"

text \<open>The \<^verbatim>\<open>reduce\<close> of lines 495-503.\<close>

fun dz_ids_to_delete ::
  "(string \<times> model) list \<Rightarrow> (string \<times> model option) list \<Rightarrow> error + (string \<times> model option) list" where
  "dz_ids_to_delete keep [] = Inr []"
| "dz_ids_to_delete keep (a # as) =
     (case keep_has keep a of
        Inl e \<Rightarrow> Inl e
      | Inr found \<Rightarrow>
          (case dz_ids_to_delete keep as of
             Inl e \<Rightarrow> Inl e
           | Inr ds \<Rightarrow> Inr (if found then ds else a # ds)))"

text \<open>
  The components of the records to delete, as the condition of lines 510-514 reads their
  \<^verbatim>\<open>collectionName\<close>: an unknown component throws while the query is built.
\<close>

fun known_components :: "(string \<times> model option) list \<Rightarrow> error + (string \<times> model) list" where
  "known_components [] = Inr []"
| "known_components (a # as) =
     (case snd a of
        None \<Rightarrow> Inl (type_error ''Cannot read property collectionName of undefined'')
      | Some c \<Rightarrow> (case known_components as of Inl e \<Rightarrow> Inl e | Inr ds \<Rightarrow> Inr ((fst a, c) # ds)))"

text \<open>\<^verbatim>\<open>deleteDynamicZoneOldComponents\<close>, lines 454-525.\<close>

definition deleteDynamicZoneOldComponents ::
  "cquery \<Rightarrow> strapi \<Rightarrow> model \<Rightarrow> row \<Rightarrow> jsval \<Rightarrow> string \<Rightarrow> nat option \<Rightarrow> unit io" where
  "deleteDynamicZoneOldComponents cq S m entry vals key transacting =
     io_bind (io_check (dz_ids_to_keep S (case vals of JArr vs \<Rightarrow> vs | _ \<Rightarrow> []))) (\<lambda>idsToKeep.
     io_bind (join_fetchAll (joinTable m) (rid entry) key transacting) (\<lambda>els.
       let allIds = map (\<lambda>el. (show_nat (component_id el), component_of_type S (component_type el))) els in
       io_bind (io_check (dz_verify key allIds idsToKeep)) (\<lambda>_.
       io_bind (io_check (dz_ids_to_delete idsToKeep allIds)) (\<lambda>idsToDelete.
         if length idsToDelete > 0 then
           io_bind (io_check (known_components idsToDelete)) (\<lambda>dels.
           io_bind (join_query_destroy (joinTable m)
                      (\<lambda>j. field j = key \<and>
                           list_ex (\<lambda>(i, c). show_nat (component_id j) = i
                                             \<and> component_type j = collectionName c) dels) transacting) (\<lambda>_.
             for_each (\<lambda>(i, c). io_bind (q_delete cq c [(primaryKey c, JStr i)] transacting)
                                  (\<lambda>_. io_return ())) dels))
         else io_return ()))))"

subsection \<open>Updating components\<close>

text \<open>\<^verbatim>\<open>updateOrCreateComponentAndLink\<close>, lines 321-365.\<close>

definition updateOrCreateComponentAndLink ::
  "cquery \<Rightarrow> model \<Rightarrow> row \<Rightarrow> nat option \<Rightarrow> model option \<Rightarrow> string \<Rightarrow> jsval \<Rightarrow> nat \<Rightarrow> unit io" where
  "updateOrCreateComponentAndLink cq m entry transacting componentModel key val ord =
     (case componentModel of
        None \<Rightarrow> io_throw (type_error ''Cannot read property primaryKey of undefined'')
      | Some cm \<Rightarrow>
          if has_key val (primaryKey cm) then
            io_bind (q_update cq cm [(primaryKey cm, get_prop val (primaryKey cm))] val transacting) (\<lambda>comp.
              case json_id comp of
                None \<Rightarrow> io_throw (type_error ''Cannot read property id'')
              | Some ci \<Rightarrow>
                  join_where_save (joinTable m) (rid entry) (collectionName cm) ci key ord transacting)
          else
            io_bind (q_create cq cm val transacting) (\<lambda>comp.
              case json_id comp of
                None \<Rightarrow> io_throw (type_error ''Cannot read property id'')
              | Some ci \<Rightarrow>
                  join_forge_save \<lparr>jtbl = joinTable m, fk = rid entry,
                                   component_type = collectionName cm, component_id = ci,
                                   field = key, order = ord\<rparr> transacting))"

text \<open>The body of the loop of \<^verbatim>\<open>updateComponents\<close> for one key, lines 368-449.\<close>

definition updateComponents_key ::
  "cquery \<Rightarrow> strapi \<Rightarrow> model \<Rightarrow> row \<Rightarrow> jsval \<Rightarrow> nat option \<Rightarrow> string \<Rightarrow> unit io" where
  "updateComponents_key cq S m entry vals transacting key =
     (if \<not> has_key vals key then io_return ()
      else case map_of (attributes m) key of
        None \<Rightarrow> io_return ()
      | Some attr \<Rightarrow>
         if atype attr = ''component'' then
           (let componentModel = map_of (strapi_components S) (component attr);
                componentValue = get_prop vals key in
            if repeatable attr then
              io_bind (io_check (validateRepeatableInput componentValue key attr)) (\<lambda>_.
              io_bind (deleteOldComponents cq m entry componentValue key componentModel transacting) (\<lambda>_.
                for_each (\<lambda>(idx, val).
                    updateOrCreateComponentAndLink cq m entry transacting componentModel key val (idx + 1))
                  (indexed componentValue)))
            else
              io_bind (io_check (validateNonRepeatableInput componentValue key attr)) (\<lambda>_.
              io_bind (deleteOldComponents cq m entry componentValue key componentModel transacting) (\<lambda>_.
                if componentValue = JNull then io_return ()
                else updateOrCreateComponentAndLink cq m entry transacting componentModel key componentValue 1)))
         else if atype attr = ''dynamiczone'' then
           (let dynamiczoneValues = get_prop vals key in
            io_bind (io_check (validateDynamiczoneInput dynamiczoneValues key attr)) (\<lambda>_.
            io_bind (deleteDynamicZoneOldComponents cq S m entry dynamiczoneValues key transacting) (\<lambda>_.
              for_each (\<lambda>(idx, val).
                  updateOrCreateComponentAndLink cq m entry transacting
                    (component_model S (get_prop val ''__component''))
                    key (omit val ''__component'') (idx + 1))
                (indexed dynamiczoneValues))))
         else io_return ())"

text \<open>\<^verbatim>\<open>updateComponents\<close>, lines 315-452.\<close>

definition updateComponents :: "cquery \<Rightarrow> strapi \<Rightarrow> model \<Rightarrow> row \<Rightarrow> jsval \<Rightarrow> nat option \<Rightarrow> unit io" where
  "updateComponents cq S m entry vals transacting =
     (if length (componentKeys m) = 0 then io_return ()
      else for_each (updateComponents_key cq S m entry vals transacting) (componentKeys m))"

subsection \<open>Deleting the components of an entity\<close>

text \<open>The loop over \<^verbatim>\<open>attr.components\<close> of lines 619-633, for one component name.\<close>

definition deleteComponents_compo ::
  "cquery \<Rightarrow> strapi \<Rightarrow> joinrow list \<Rightarrow> nat option \<Rightarrow> string \<Rightarrow> unit io" where
  "deleteComponents_compo cq S componentJoins transacting compo =
     (case map_of (strapi_components S) compo of
        None \<Rightarrow> io_throw (type_error ''Cannot destructure property uid of undefined'')
      | Some c \<Rightarrow>
          (let toDelete = filter (\<lambda>el. component_type el = collectionName c) componentJoins in
           if length toDelete > 0 then
             io_bind (q_delete cq c [(primaryKey c @ ''_in'',
                                      JArr (map (\<lambda>el. JNum (int (component_id el))) toDelete))] transacting)
               (\<lambda>_. io_return ())
           else io_return ()))"

text \<open>The body of the loop of \<^verbatim>\<open>deleteComponents\<close> for one key, lines 576-644.\<close>

definition deleteComponents_key ::
  "cquery \<Rightarrow> strapi \<Rightarrow> model \<Rightarrow> row \<Rightarrow> nat option \<Rightarrow> string \<Rightarrow> attribute \<Rightarrow> unit io" where
  "deleteComponents_key cq S m entry transacting key attr =
     (if atype attr = ''component'' then
        io_bind (join_fetchAll (joinTable m) (rid entry) key transacting) (\<lambda>els.
          case map_of (strapi_components S) (component attr) of
            None \<Rightarrow> io_throw (type_error ''Cannot read property uid of undefined'')
          | Some cm \<Rightarrow>
              io_bind (q_delete cq cm [(primaryKey cm @ ''_in'',
                                        JArr (map (\<lambda>el. JNum (int (component_id el))) els))] transacting) (\<lambda>_.
                join_where_destroy (joinTable m) (rid entry) key transacting))
      else if atype attr = ''dynamiczone'' then
        io_bind (join_fetchAll (joinTable m) (rid entry) key transacting) (\<lambda>componentJoins.
        io_bind (for_each (deleteComponents_compo cq S componentJoins transacting) (components attr)) (\<lambda>_.
          join_where_destroy (joinTable m) (rid entry) key transacting))
      else io_return ())"

text \<open>\<^verbatim>\<open>deleteComponents\<close>, lines 569-646.\<close>

definition deleteComponents :: "cquery \<Rightarrow> strapi \<Rightarrow> model \<Rightarrow> row \<Rightarrow> nat option \<Rightarrow> unit io" where
  "deleteComponents cq S m entry transacting =
     (if length (componentKeys m) = 0 then io_return ()
      else for_each (\<lambda>key. case map_of (attributes m) key of
                              None \<Rightarrow> io_return ()
                            | Some attr \<Rightarrow> deleteComponents_key cq S m entry transacting key attr)
             (componentKeys m))"

subsection \<open>The public operations\<close>

text \<open>\<^verbatim>\<open>runCreate\<close>, lines 83-89.\<close>

definition runCreate :: "cquery \<Rightarrow> strapi \<Rightarrow> model \<Rightarrow> jsval \<Rightarrow> nat option \<Rightarrow> jsval io" where
  "runCreate cq S m vals trx =
     io_bind (forge_save m (selectAttributes m vals) trx) (\<lambda>entry.
     io_bind (createComponents cq S m entry vals trx) (\<lambda>_.
       updateRelations m (JNum (int (rid entry))) (pickRelations m vals) trx))"

text \<open>\<^verbatim>\<open>create\<close>, lines 79-92.\<close>

definition create :: "cquery \<Rightarrow> strapi \<Rightarrow> model \<Rightarrow> jsval \<Rightarrow> nat option \<Rightarrow> jsval io" where
  "create cq S m vals transacting = wrapTransaction S m (runCreate cq S m vals) transacting"

definition not_found :: error where
  "not_found = http_error 404 ''entry.notFound''"

text \<open>\<^verbatim>\<open>runUpdate\<close>, lines 107-123.\<close>

definition runUpdate ::
  "cquery \<Rightarrow> strapi \<Rightarrow> model \<Rightarrow> obj \<Rightarrow> jsval \<Rightarrow> row \<Rightarrow> nat option \<Rightarrow> jsval io" where
  "runUpdate cq S m params vals entry trx =
     io_bind (if length (selectAttributes m vals) > 0
              then entry_save entry (selectAttributes m vals) trx
              else io_return entry) (\<lambda>updatedEntry.
     io_bind (updateComponents cq S m updatedEntry vals trx) (\<lambda>_.
       if length (pickRelations m vals) > 0
       then updateRelations m (JNum (int (rid entry))) (pickRelations m vals) trx
       else findOne m params trx))"

text \<open>\<^verbatim>\<open>update\<close>, lines 94-126.\<close>

definition update :: "cquery \<Rightarrow> strapi \<Rightarrow> model \<Rightarrow> obj \<Rightarrow> jsval \<Rightarrow> nat option \<Rightarrow> jsval io" where
  "update cq S m params vals transacting =
     io_bind (where_fetch m params transacting) (\<lambda>found.
       case found of
         None \<Rightarrow> io_throw not_found
       | Some entry \<Rightarrow> wrapTransaction S m (runUpdate cq S m params vals entry) transacting)"

text \<open>The relation values that unlink an entity, lines 137-154.\<close>

definition unlink_values :: "model \<Rightarrow> obj" where
  "unlink_values m =
     concat (map (\<lambda>a.
        if nature a \<in> set [''oneWay'', ''oneToOne'', ''manyToOne'', ''oneToManyMorph'']
          then [(alias_of a, JNull)]
        else if nature a \<in> set [''manyWay'', ''oneToMany'', ''manyToMany'', ''manyToManyMorph'']
          then [(alias_of a, JArr [])]
        else []) (associations m))"

text \<open>\<^verbatim>\<open>runDelete\<close>, lines 158-162.\<close>

definition runDelete :: "cquery \<Rightarrow> strapi \<Rightarrow> model \<Rightarrow> row \<Rightarrow> nat option \<Rightarrow> jsval io" where
  "runDelete cq S m entry trx =
     io_bind (deleteComponents cq S m entry trx) (\<lambda>_.
     io_bind (where_destroy m (rid entry) trx) (\<lambda>_.
       io_return (to_json entry)))"

text \<open>\<^verbatim>\<open>deleteOne\<close>, lines 128-165.\<close>

definition deleteOne :: "cquery \<Rightarrow> strapi \<Rightarrow> model \<Rightarrow> jsval \<Rightarrow> nat option \<Rightarrow> jsval io" where
  "deleteOne cq S m i transacting =
     io_bind (where_fetch m [(primaryKey m, i)] transacting) (\<lambda>found.
       case found of
         None \<Rightarrow> io_throw not_found
       | Some entry \<Rightarrow>
           io_bind (updateRelations m i (unlink_values m) transacting) (\<lambda>_.
             wrapTransaction S m (runDelete cq S m entry) transacting))"

text \<open>\<^verbatim>\<open>deleteMany\<close>, lines 167-178, exported as \<^verbatim>\<open>delete\<close>.\<close>

definition deleteMany :: "cquery \<Rightarrow> strapi \<Rightarrow> model \<Rightarrow> obj \<Rightarrow> nat option \<Rightarrow> jsval io" where
  "deleteMany cq S m params transacting =
     (if truthy (get_prop (JObj params) (primaryKey m)) then
        io_bind (find_entries m ((''_limit'', JNum 1) # params) transacting) (\<lambda>entries.
          case entries of
            e # _ \<Rightarrow> deleteOne cq S m (get_prop e (primaryKey m)) transacting
          | [] \<Rightarrow> io_return JNull)
      else
        io_bind (find_entries m params transacting) (\<lambda>entries.
        io_bind (promise_all (\<lambda>entry. deleteOne cq S m (get_prop entry ''id'') transacting) entries) (\<lambda>rs.
          io_return (JArr rs))))"

text \<open>
  \<^verbatim>\<open>strapi.query(uid)\<close> for component models nested at most \<open>depth\<close> levels deep: the query
  builder of a component model uses the one of the level below for its own components.
\<close>

primrec strapi_query :: "strapi \<Rightarrow> nat \<Rightarrow> cquery" where
  "strapi_query S 0 =
     \<lparr>q_create = (\<lambda>m vals t. io_throw (type_error ''components nested too deep'')),
      q_update = (\<lambda>m params vals t. io_throw (type_error ''components nested too deep'')),
      q_delete = (\<lambda>m params t. io_throw (type_error ''components nested too deep''))\<rparr>"
| "strapi_query S (Suc depth) =
     \<lparr>q_create = create (strapi_query S depth) S,
      q_update = update (strapi_query S depth) S,
      q_delete = deleteMany (strapi_query S depth) S\<rparr>"

section \<open>Search\<close>

text \<open>
  The query builder \<^verbatim>\<open>qb\<close> of knex, as far as \<^verbatim>\<open>buildSearchQuery\<close> uses it: the list of
  the conditions added, each with the connective it was added with. \<^verbatim>\<open>orWhere(column,
  number)\<close> is an equality; \<^verbatim>\<open>orWhereRaw(sql, binding)\<close> is a raw condition. A number is
  what \<^verbatim>\<open>_.toNumber\<close> returns, \<open>None\<close> for NaN.
\<close>

datatype connective = AndWhere | OrWhere

datatype 'n condition = ColumnIs string "'n option" | Raw string jsval

definition quote :: char where
  "quote = CHR 0x27"

definition dquote :: char where
  "dquote = CHR 0x22"

definition to_lower_char :: "char \<Rightarrow> char" where
  "to_lower_char c = (if (65::nat) \<le> of_char c \<and> of_char c \<le> (90::nat) then char_of (of_char c + (32::nat)) else c)"

definition searchable :: "model \<Rightarrow> string list \<Rightarrow> string list" where
  "searchable m types =
     map fst (filter (\<lambda>(k, a). atype a \<in> set types)
       (filter (\<lambda>(k, a). k \<noteq> primaryKey m \<and> k \<notin> set (map alias_of (associations m))) (raw_attributes m)))"

text \<open>\<^verbatim>\<open>buildSearchQuery\<close>, lines 666-713; \<open>toNumber\<close> is \<^verbatim>\<open>_.toNumber\<close> of lodash.\<close>

definition buildSearchQuery ::
  "(jsval \<Rightarrow> 'n option) \<Rightarrow> model \<Rightarrow> jsval \<Rightarrow> (connective \<times> 'n condition) list" where
  "buildSearchQuery toNumber m params =
     (let query = get_prop params ''_q'';
          searchText = searchable m [''string'', ''text''];
          searchInt = searchable m [''integer'', ''decimal'', ''float''];
          searchBool = searchable m [''boolean'']
      in (if toNumber query \<noteq> None
          then map (\<lambda>a. (OrWhere, ColumnIs a (toNumber query))) searchInt else [])
       @ (if query = JStr ''true'' \<or> query = JStr ''false''
          then map (\<lambda>a. (OrWhere, ColumnIs a (toNumber (JBool (query = JStr ''true''))))) searchBool else [])
       @ (if client m = ''mysql'' then
            [(OrWhere, Raw (''MATCH('' @ join_with '','' searchText @ '') AGAINST(? IN BOOLEAN MODE)'')
                           (JStr (''*'' @ template_text query @ ''*'')))]
          else if client m = ''pg'' then
            [(OrWhere, Raw (join_with '' || ''
                              (map (\<lambda>a. if map to_lower_char a = a
                                         then ''to_tsvector(coalesce('' @ a @ '', '' @ [quote, quote] @ ''))''
                                         else ''to_tsvector(coalesce('' @ [dquote] @ a @ [dquote] @ '', ''
                                              @ [quote, quote] @ ''))'') searchText)
                            @ '' @@ plainto_tsquery(?)'') query)]
          else []))"

text \<open>
  The where clause that knex emits for a list of conditions, read as SQL reads it
  (\<^verbatim>\<open>and\<close> binds tighter than \<^verbatim>\<open>or\<close>; the connective of the first condition is dropped;
  no condition selects every row).
\<close>

fun holds_from :: "('c \<Rightarrow> bool) \<Rightarrow> bool \<Rightarrow> (connective \<times> 'c) list \<Rightarrow> bool" where
  "holds_from sat acc [] = acc"
| "holds_from sat acc ((OrWhere, c) # cs) = (acc \<or> holds_from sat (sat c) cs)"
| "holds_from sat acc ((AndWhere, c) # cs) = holds_from sat (acc \<and> sat c) cs"

fun where_holds :: "('c \<Rightarrow> bool) \<Rightarrow> (connective \<times> 'c) list \<Rightarrow> bool" where
  "where_holds sat [] = True"
| "where_holds sat ((k, c) # cs) = holds_from sat (sat c) cs"

section \<open>Reading a number back\<close>

text \<open>The number that a decimal text denotes; it inverts \<open>show_nat\<close>.\<close>

definition read_nat :: "string \<Rightarrow> nat" where
  "read_nat s = foldl (\<lambda>acc c. 10 * acc + (of_char c - 48)) 0 s"

section \<open>Notions used in the statements\<close>

text \<open>The join records of a field of an entity: those that \<open>join_fetchAll\<close> returns.\<close>

definition joined :: "model \<Rightarrow> row \<Rightarrow> string \<Rightarrow> db \<Rightarrow> joinrow list" where
  "joined m entry key d =
     filter (\<lambda>j. jtbl j = joinTable m \<and> fk j = rid entry \<and> field j = key) (joins d)"

text \<open>The array that \<^verbatim>\<open>deleteOldComponents\<close> makes of the value of a component field.\<close>

definition component_items :: "jsval \<Rightarrow> jsval list" where
  "component_items v = (case v of JArr vs \<Rightarrow> vs | _ \<Rightarrow> [v])"

text \<open>
  An operation keeps to the transaction \<open>h\<close> when, run while \<open>h\<close> is open, it leaves the
  committed data, the other transactions and the handle counter as they are, and \<open>h\<close> open:
  whatever it writes, it writes to the working copy of \<open>h\<close>.
\<close>

definition scoped :: "nat \<Rightarrow> 'a io \<Rightarrow> bool" where
  "scoped h m = (\<forall>w. scopes w h \<noteq> None \<longrightarrow>
                   committed (snd (m w)) = committed w
                   \<and> next_trx (snd (m w)) = next_trx w
                   \<and> scopes (snd (m w)) h \<noteq> None
                   \<and> (\<forall>h'. h' \<noteq> h \<longrightarrow> scopes (snd (m w)) h' = scopes w h'))"

definition cquery_scoped :: "nat \<Rightarrow> cquery \<Rightarrow> bool" where
  "cquery_scoped h cq = (\<forall>m params vals.
                           scoped h (q_create cq m vals (Some h))
                           \<and> scoped h (q_update cq m params vals (Some h))
                           \<and> scoped h (q_delete cq m params (Some h)))"

text \<open>The world right after \<^verbatim>\<open>db.transaction\<close> has opened its transaction.\<close>

definition opened :: "world \<Rightarrow> world" where
  "opened w = w\<lparr>scopes := (scopes w)(next_trx w \<mapsto> committed w), next_trx := Suc (next_trx w)\<rparr>"

subsection \<open>What the component store is to do\<close>

text \<open>
  The effect on the store that the spec gives to the steps of the component store, written
  down on their own; the theorems compare the code with them.

  A component instance is created: a new row of the component model's table with the
  item's attributes, its relations persisted.
\<close>

definition insert_component :: "model \<Rightarrow> jsval \<Rightarrow> db \<Rightarrow> db" where
  "insert_component cm v d =
     d\<lparr>rows := rows d @ [\<lparr>tbl = collectionName cm, rid = seq d (collectionName cm),
                           cols = selectAttributes cm v\<rparr>],
       seq := (seq d)(collectionName cm := Suc (seq d (collectionName cm))),
       links := relate cm (JNum (int (seq d (collectionName cm)))) (pickRelations cm v) (links d)\<rparr>"

text \<open>A join record links the component instance \<open>ci\<close> to the entry at (field, order).\<close>

definition link_component :: "model \<Rightarrow> row \<Rightarrow> string \<Rightarrow> model \<Rightarrow> nat \<Rightarrow> nat \<Rightarrow> db \<Rightarrow> db" where
  "link_component m entry key cm ci ord d =
     d\<lparr>joins := joins d @ [\<lparr>jtbl = joinTable m, fk = rid entry, component_type = collectionName cm,
                             component_id = ci, field = key, order = ord\<rparr>]\<rparr>"

text \<open>An item without an id: a new component instance and a new join record at the order.\<close>

definition add_component :: "model \<Rightarrow> row \<Rightarrow> string \<Rightarrow> model \<Rightarrow> nat \<Rightarrow> jsval \<Rightarrow> db \<Rightarrow> db" where
  "add_component m entry key cm ord v d =
     link_component m entry key cm (seq d (collectionName cm)) ord (insert_component cm v d)"

text \<open>The component model of an item of a field, and the data stored for it.\<close>

definition item_model :: "strapi \<Rightarrow> attribute \<Rightarrow> jsval \<Rightarrow> model option" where
  "item_model S attr v =
     (if atype attr = ''dynamiczone'' then component_model S (get_prop v ''__component'')
      else map_of (strapi_components S) (component attr))"

definition item_data :: "attribute \<Rightarrow> jsval \<Rightarrow> jsval" where
  "item_data attr v = (if atype attr = ''dynamiczone'' then omit v ''__component'' else v)"

text \<open>
  The items of the value of a field with their orders: the 1-based positions in the array
  of a repeatable component or a dynamic zone; order 1 for the single value of a
  non-repeatable component, and no item when that value is null.
\<close>

definition field_items :: "attribute \<Rightarrow> jsval \<Rightarrow> (nat \<times> jsval) list" where
  "field_items attr v =
     (if atype attr = ''component'' \<and> \<not> repeatable attr then (if v = JNull then [] else [(1, v)])
      else map (\<lambda>(idx, x). (idx + 1, x)) (indexed v))"

text \<open>\<^verbatim>\<open>createComponents\<close> on one field: every item is added at its order.\<close>

definition create_field :: "strapi \<Rightarrow> model \<Rightarrow> row \<Rightarrow> string \<Rightarrow> attribute \<Rightarrow> jsval \<Rightarrow> db \<Rightarrow> db" where
  "create_field S m entry key attr v d =
     fold (\<lambda>(ord, x). add_component m entry key (the (item_model S attr x)) ord (item_data attr x))
       (field_items attr v) d"

text \<open>
  A component model without component fields of its own: the query builder of such a
  model returns from \<^verbatim>\<open>createComponents\<close>, \<^verbatim>\<open>updateComponents\<close> and
  \<^verbatim>\<open>deleteComponents\<close> at their first line.
\<close>

definition flat :: "model \<Rightarrow> bool" where
  "flat cm = (componentKeys cm = [] \<and> primaryKey cm = ''id'')"

text \<open>The component models that the items of a field can have are registered and flat.\<close>

definition field_models_flat :: "strapi \<Rightarrow> attribute \<Rightarrow> bool" where
  "field_models_flat S attr =
     (if atype attr = ''dynamiczone''
      then list_all (\<lambda>c. case map_of (strapi_components S) c of None \<Rightarrow> False | Some cm \<Rightarrow> flat cm)
             (components attr)
      else (case map_of (strapi_components S) (component attr) of None \<Rightarrow> False | Some cm \<Rightarrow> flat cm))"

text \<open>The validator of the field's kind.\<close>

definition validate_field :: "jsval \<Rightarrow> string \<Rightarrow> attribute \<Rightarrow> error + unit" where
  "validate_field v key attr =
     (if atype attr = ''dynamiczone'' then validateDynamiczoneInput v key attr
      else if repeatable attr then validateRepeatableInput v key attr
      else validateNonRepeatableInput v key attr)"

text \<open>
  A component instance is updated in place: the attributes of the item are written to the
  row with that id, and the relations of the item, if it has any, are persisted.
\<close>

definition patch_component :: "model \<Rightarrow> nat \<Rightarrow> jsval \<Rightarrow> db \<Rightarrow> db" where
  "patch_component cm i v d =
     d\<lparr>rows := map (\<lambda>r. if tbl r = collectionName cm \<and> rid r = i
                          then r\<lparr>cols := patch (cols r) (selectAttributes cm v)\<rparr> else r) (rows d),
       links := (if pickRelations cm v = [] then links d
                 else relate cm (JNum (int i)) (pickRelations cm v) (links d))\<rparr>"

text \<open>The join record of the entry, the field and the component instance gets the order.\<close>

definition reorder_link :: "model \<Rightarrow> row \<Rightarrow> string \<Rightarrow> model \<Rightarrow> nat \<Rightarrow> nat \<Rightarrow> db \<Rightarrow> db" where
  "reorder_link m entry key cm i ord d =
     d\<lparr>joins := map (\<lambda>j. if jtbl j = joinTable m \<and> fk j = rid entry
                              \<and> component_type j = collectionName cm \<and> component_id j = i \<and> field j = key
                           then j\<lparr>order := ord\<rparr> else j) (joins d)\<rparr>"

text \<open>The id that an item carries.\<close>

definition item_id :: "model \<Rightarrow> jsval \<Rightarrow> nat" where
  "item_id cm v = read_nat (to_text (get_prop v (primaryKey cm)))"

text \<open>
  An item of the new value: updated in place and reordered when it carries an id, created
  and linked otherwise.
\<close>

definition put_component :: "model \<Rightarrow> row \<Rightarrow> string \<Rightarrow> model \<Rightarrow> nat \<Rightarrow> jsval \<Rightarrow> db \<Rightarrow> db" where
  "put_component m entry key cm ord v d =
     (if has_key v (primaryKey cm)
      then reorder_link m entry key cm (item_id cm v) ord (patch_component cm (item_id cm v) v d)
      else add_component m entry key cm ord v d)"

text \<open>A component instance is deleted: its relations are unlinked and its row is removed.\<close>

definition remove_component :: "model \<Rightarrow> nat \<Rightarrow> db \<Rightarrow> db" where
  "remove_component cm i d =
     d\<lparr>links := relate cm (JNum (int i)) (unlink_values cm) (links d),
       rows := filter (\<lambda>r. \<not> (tbl r = collectionName cm \<and> rid r = i)) (rows d)\<rparr>"

text \<open>The ids, as texts, of the component instances joined to a field of an entity.\<close>

definition existing_ids :: "model \<Rightarrow> row \<Rightarrow> string \<Rightarrow> db \<Rightarrow> string list" where
  "existing_ids m entry key d = map (\<lambda>j. show_nat (component_id j)) (joined m entry key d)"

text \<open>The ids, as texts, that the items of a new value carry.\<close>

definition supplied_ids :: "jsval list \<Rightarrow> string list" where
  "supplied_ids items = map (\<lambda>x. to_text (get_prop x ''id'')) (filter (\<lambda>x. has_key x ''id'') items)"

text \<open>The ids to delete: the existing ids minus the supplied ones.\<close>

definition ids_to_delete :: "model \<Rightarrow> row \<Rightarrow> string \<Rightarrow> jsval \<Rightarrow> db \<Rightarrow> string list" where
  "ids_to_delete m entry key v d =
     filter (\<lambda>i. i \<notin> set (supplied_ids (component_items v))) (existing_ids m entry key d)"

text \<open>
  The old components of a component field are deleted: the join records of the field with
  an id to delete, and the component instances with these ids.
\<close>

definition delete_old :: "model \<Rightarrow> row \<Rightarrow> string \<Rightarrow> model \<Rightarrow> string list \<Rightarrow> db \<Rightarrow> db" where
  "delete_old m entry key cm del d =
     (if del = [] then d
      else fold (remove_component cm)
             (map rid (filter (\<lambda>r. show_nat (rid r) \<in> set del) (table_rows (collectionName cm) d)))
             (d\<lparr>joins := filter (\<lambda>j. \<not> (jtbl j = joinTable m
                                         \<and> (show_nat (component_id j) \<in> set del \<and> field j = key)))
                            (joins d)\<rparr>))"

text \<open>
  The same for a dynamic zone, on pairs of an id and a component model: the existing pairs
  of the field, the pairs that the items of the new value carry, and the pairs to delete,
  which are the existing ones that no supplied pair matches in id and component uid.
\<close>

definition dz_existing :: "strapi \<Rightarrow> model \<Rightarrow> row \<Rightarrow> string \<Rightarrow> db \<Rightarrow> (string \<times> model) list" where
  "dz_existing S m entry key d =
     map (\<lambda>j. (show_nat (component_id j), the (component_of_type S (component_type j))))
       (joined m entry key d)"

definition dz_supplied :: "strapi \<Rightarrow> jsval list \<Rightarrow> (string \<times> model) list" where
  "dz_supplied S items =
     map (\<lambda>x. (to_text (get_prop x ''id''), the (component_model S (get_prop x ''__component''))))
       (filter (\<lambda>x. has_key x ''id'') items)"

definition dz_to_delete :: "strapi \<Rightarrow> model \<Rightarrow> row \<Rightarrow> string \<Rightarrow> jsval \<Rightarrow> db \<Rightarrow> (string \<times> model) list" where
  "dz_to_delete S m entry key v d =
     filter (\<lambda>a. \<not> list_ex (\<lambda>k. fst k = fst a \<and> uid (snd k) = uid (snd a))
                      (dz_supplied S (case v of JArr vs \<Rightarrow> vs | _ \<Rightarrow> [])))
       (dz_existing S m entry key d)"

text \<open>
  The old components of a dynamic zone are deleted: the join records of the field with a
  pair to delete, and for each pair the component instance, if there is one.
\<close>

definition dz_delete_old :: "model \<Rightarrow> row \<Rightarrow> string \<Rightarrow> (string \<times> model) list \<Rightarrow> db \<Rightarrow> db" where
  "dz_delete_old m entry key dels d =
     (if dels = [] then d
      else fold (\<lambda>(i, c) d'. if list_ex (\<lambda>r. show_nat (rid r) = i) (table_rows (collectionName c) d')
                             then remove_component c (read_nat i) d' else d')
             dels
             (d\<lparr>joins := filter (\<lambda>j. \<not> (jtbl j = joinTable m
                                         \<and> (field j = key
                                            \<and> list_ex (\<lambda>(i, c). show_nat (component_id j) = i
                                                               \<and> component_type j = collectionName c) dels)))
                            (joins d)\<rparr>))"

text \<open>
  \<^verbatim>\<open>updateComponents\<close> on one field: the old components are deleted, then every item of
  the new value is put at its order.
\<close>

definition update_field :: "strapi \<Rightarrow> model \<Rightarrow> row \<Rightarrow> string \<Rightarrow> attribute \<Rightarrow> jsval \<Rightarrow> db \<Rightarrow> db" where
  "update_field S m entry key attr v d =
     fold (\<lambda>(ord, x). put_component m entry key (the (item_model S attr x)) ord (item_data attr x))
       (field_items attr v)
       (if atype attr = ''dynamiczone'' then dz_delete_old m entry key (dz_to_delete S m entry key v d) d
        else delete_old m entry key (the (map_of (strapi_components S) (component attr)))
               (ids_to_delete m entry key v d) d)"

text \<open>
  The store is consistent for a component field of an entity: the ids of the component
  model's table are unique, and every join record of the field names the collection of the
  component model and the id of an instance that is there.
\<close>

definition field_consistent :: "model \<Rightarrow> row \<Rightarrow> string \<Rightarrow> model \<Rightarrow> db \<Rightarrow> bool" where
  "field_consistent m entry key cm d =
     (distinct (map rid (table_rows (collectionName cm) d))
      \<and> list_all (\<lambda>j. component_type j = collectionName cm
                      \<and> list_ex (\<lambda>r. rid r = component_id j) (table_rows (collectionName cm) d))
          (joined m entry key d))"

text \<open>What identifies a row and a join record: the table and the id; the five keys.\<close>

definition row_key :: "row \<Rightarrow> string \<times> nat" where
  "row_key r = (tbl r, rid r)"

definition join_key :: "joinrow \<Rightarrow> string \<times> nat \<times> string \<times> nat \<times> string" where
  "join_key j = (jtbl j, fk j, component_type j, component_id j, field j)"

text \<open>
  The registry of components is keyed by uid, no two components share a collection, and no
  component has component fields of its own.
\<close>

definition registry_flat :: "strapi \<Rightarrow> bool" where
  "registry_flat S =
     (distinct (map fst (strapi_components S))
      \<and> distinct (map (\<lambda>(k, c). collectionName c) (strapi_components S))
      \<and> list_all (\<lambda>(k, c). uid c = k \<and> flat c) (strapi_components S))"

text \<open>
  The store is consistent for a dynamic zone of an entity: every join record of the field
  names the collection of a registered component and the id of an instance that is there.
\<close>

definition dz_consistent :: "strapi \<Rightarrow> model \<Rightarrow> row \<Rightarrow> string \<Rightarrow> db \<Rightarrow> bool" where
  "dz_consistent S m entry key d =
     list_all (\<lambda>j. case component_of_type S (component_type j) of
                      None \<Rightarrow> False
                    | Some c \<Rightarrow> list_ex (\<lambda>r. rid r = component_id j) (table_rows (collectionName c) d))
       (joined m entry key d)"

definition store_consistent :: "strapi \<Rightarrow> model \<Rightarrow> row \<Rightarrow> string \<Rightarrow> attribute \<Rightarrow> db \<Rightarrow> bool" where
  "store_consistent S m entry key attr d =
     (if atype attr = ''dynamiczone'' then dz_consistent S m entry key d
      else (case map_of (strapi_components S) (component attr) of
              None \<Rightarrow> False
            | Some cm \<Rightarrow> field_consistent m entry key cm d))"

text \<open>
  Every id that the items of the new value carry can be read and is the id of a join record
  of the field; for a dynamic zone, of a join record of the item's component.
\<close>

definition supplied_related :: "strapi \<Rightarrow> model \<Rightarrow> row \<Rightarrow> string \<Rightarrow> attribute \<Rightarrow> jsval \<Rightarrow> db \<Rightarrow> bool" where
  "supplied_related S m entry key attr v d =
     (if atype attr = ''dynamiczone'' then
        (case dz_ids_to_keep S (case v of JArr vs \<Rightarrow> vs | _ \<Rightarrow> []) of
           Inl e \<Rightarrow> False
         | Inr keep \<Rightarrow> list_all (\<lambda>k. list_ex (\<lambda>a. fst a = fst k \<and> uid (snd a) = uid (snd k))
                                       (dz_existing S m entry key d)) keep)
      else
        (case ids_to_keep ''id'' (component_items v) of
           Inl e \<Rightarrow> False
         | Inr keep \<Rightarrow> list_all (\<lambda>i. i \<in> set (existing_ids m entry key d)) keep))"

text \<open>The store after the old components of a field have been deleted.\<close>

definition old_deleted :: "strapi \<Rightarrow> model \<Rightarrow> row \<Rightarrow> string \<Rightarrow> attribute \<Rightarrow> jsval \<Rightarrow> db \<Rightarrow> db" where
  "old_deleted S m entry key attr v d =
     (if atype attr = ''dynamiczone'' then dz_delete_old m entry key (dz_to_delete S m entry key v d) d
      else delete_old m entry key (the (map_of (strapi_components S) (component attr)))
             (ids_to_delete m entry key v d) d)"

text \<open>The (id, component uid) pairs that the dynamic zone comparison looks at.\<close>

definition dz_pairs :: "(string \<times> model) list \<Rightarrow> (string \<times> string) set" where
  "dz_pairs ks = (\<lambda>k. (fst k, uid (snd k))) ` set ks"

subsection \<open>What an update leaves alone\<close>

text \<open>The tables of the registered components.\<close>

definition component_tables :: "strapi \<Rightarrow> string list" where
  "component_tables S = map (\<lambda>(k, c). collectionName c) (strapi_components S)"

text \<open>
  The component instance that the update of a field can reach through a join record of
  that field: for a component field, the row of the field's component model with the id of
  the record; for a dynamic zone, the row that the record names, when it names the
  collection of a registered component.
\<close>

definition touched_keys :: "strapi \<Rightarrow> model \<Rightarrow> joinrow \<Rightarrow> (string \<times> nat) list" where
  "touched_keys S m j =
     (case map_of (attributes m) (field j) of
        None \<Rightarrow> []
      | Some a \<Rightarrow>
          if atype a = ''component'' then
            (case map_of (strapi_components S) (component a) of
               None \<Rightarrow> []
             | Some c \<Rightarrow> [(collectionName c, component_id j)])
          else if component_type j \<in> set (component_tables S) then [(component_type j, component_id j)]
          else [])"

text \<open>
  The store \<open>d\<close> has kept what the store \<open>d0\<close> had for the field \<open>k\<close> and for the rows that
  \<open>Pr\<close> selects: the join records of \<open>k\<close> and the selected rows are the same; and it stays
  so, because the selected rows of component tables have ids below the next id of their
  table and no join record of another field of the entity reaches a selected row.
\<close>

definition frame_inv ::
  "strapi \<Rightarrow> model \<Rightarrow> nat \<Rightarrow> string \<Rightarrow> (string \<times> nat \<Rightarrow> bool) \<Rightarrow> db \<Rightarrow> db \<Rightarrow> bool" where
  "frame_inv S m eid k Pr d0 d =
     (filter (\<lambda>j. field j = k) (joins d) = filter (\<lambda>j. field j = k) (joins d0)
      \<and> filter (\<lambda>r. Pr (row_key r)) (rows d) = filter (\<lambda>r. Pr (row_key r)) (rows d0)
      \<and> (\<forall>T i. Pr (T, i) \<longrightarrow> T \<in> set (component_tables S) \<longrightarrow> i < seq d T)
      \<and> (\<forall>j \<in> set (joins d). jtbl j = joinTable m \<and> fk j = eid \<and> field j \<noteq> k \<longrightarrow>
            (\<forall>key \<in> set (touched_keys S m j). \<not> Pr key)))"

text \<open>
  An operation run on the working copy of \<open>t\<close> from a store with \<open>P\<close>: when it resolves
  with \<open>a\<close> the store has \<open>Q a\<close>, when it rejects the store has \<open>E\<close>.
\<close>

definition triple ::
  "nat option \<Rightarrow> (db \<Rightarrow> bool) \<Rightarrow> 'a io \<Rightarrow> ('a \<Rightarrow> db \<Rightarrow> bool) \<Rightarrow> (db \<Rightarrow> bool) \<Rightarrow> bool" where
  "triple t P m Q E =
     (\<forall>w. P (view t w) \<longrightarrow>
        (case m w of (Inr a, w') \<Rightarrow> Q a (view t w') | (Inl e, w') \<Rightarrow> E (view t w')))"

text \<open>The component instances of a field of an entity, by table and id.\<close>

definition instances :: "model \<Rightarrow> row \<Rightarrow> string \<Rightarrow> db \<Rightarrow> (string \<times> nat) list" where
  "instances m entry k d = map (\<lambda>j. (component_type j, component_id j)) (joined m entry k d)"

text \<open>
  The field \<open>k\<close> of an entity is separate in a store: its join records name rows of
  component tables with ids below the next id of the table, and no join record of another
  field of the entity reaches one of its instances.
\<close>

definition field_separate :: "strapi \<Rightarrow> model \<Rightarrow> row \<Rightarrow> string \<Rightarrow> db \<Rightarrow> bool" where
  "field_separate S m entry k d =
     (list_all (\<lambda>(T, i). T \<in> set (component_tables S) \<and> i < seq d T) (instances m entry k d)
      \<and> list_all (\<lambda>j. jtbl j = joinTable m \<and> fk j = rid entry \<and> field j \<noteq> k \<longrightarrow>
                      list_all (\<lambda>key. key \<notin> set (instances m entry k d)) (touched_keys S m j))
          (joins d))"

text \<open>The rows that an update of an entity must leave alone: the instances of the field, and the rows outside the component tables.\<close>

definition kept_rows :: "strapi \<Rightarrow> model \<Rightarrow> row \<Rightarrow> string \<Rightarrow> db \<Rightarrow> string \<times> nat \<Rightarrow> bool" where
  "kept_rows S m entry k d key =
     (key \<in> set (instances m entry k d) \<or> fst key \<notin> set (component_tables S))"

section \<open>Example data\<close>

text \<open>
  The model of the concrete scenario: \<^verbatim>\<open>Article\<close> with the string attribute \<^verbatim>\<open>title\<close>
  and the repeatable component \<^verbatim>\<open>sections\<close> of the component model \<^verbatim>\<open>Section\<close>.
\<close>

definition sections_attr :: attribute where
  "sections_attr = \<lparr>atype = ''component'', component = ''section'', repeatable = True,
                    required = False, attr_min = Some 1, attr_max = Some 3, components = []\<rparr>"

definition an_item :: jsval where
  "an_item = JObj [(''text'', JStr ''x'')]"

definition section_model :: model where
  "section_model = \<lparr>uid = ''section'', collectionName = ''components_sections'', primaryKey = ''id'',
                     connection = ''default'', client = ''sqlite3'',
                     attributes = [(''text'', \<lparr>atype = ''string'', component = [], repeatable = False,
                                     required = False, attr_min = None, attr_max = None, components = []\<rparr>)],
                     raw_attributes = [(''text'', \<lparr>atype = ''string'', component = [], repeatable = False,
                                     required = False, attr_min = None, attr_max = None, components = []\<rparr>)],
                     allAttributes = [''text''], associations = [], timestamps = [],
                     joinTable = ''components_sections_components''\<rparr>"

definition title_attr :: attribute where
  "title_attr = \<lparr>atype = ''string'', component = [], repeatable = False, required = False,
                 attr_min = None, attr_max = None, components = []\<rparr>"

definition article_model :: model where
  "article_model = \<lparr>uid = ''article'', collectionName = ''articles'', primaryKey = ''id'',
                     connection = ''default'', client = ''sqlite3'',
                     attributes = [(''title'', title_attr), (''sections'', sections_attr)],
                     raw_attributes = [(''title'', title_attr), (''sections'', sections_attr)],
                     allAttributes = [''title'', ''sections''], associations = [], timestamps = [],
                     joinTable = ''articles_components''\<rparr>"

definition quote_model :: model where
  "quote_model = \<lparr>uid = ''quote'', collectionName = ''components_quotes'', primaryKey = ''id'',
                   connection = ''default'', client = ''sqlite3'',
                   attributes = [(''text'', title_attr)], raw_attributes = [(''text'', title_attr)],
                   allAttributes = [''text''], associations = [], timestamps = [],
                   joinTable = ''components_quotes_components''\<rparr>"

definition app :: strapi where
  "app = \<lparr>strapi_components = [(''section'', section_model), (''quote'', quote_model)],
          connections = [(''default'', ''sqlite3'')]\<rparr>"

definition empty_db :: db where
  "empty_db = \<lparr>rows = [], joins = [], links = [], seq = (\<lambda>t. 1)\<rparr>"

definition empty_world :: world where
  "empty_world = \<lparr>committed = empty_db, scopes = (\<lambda>h. None), next_trx = 0\<rparr>"

text \<open>
  A model with a dynamic zone \<^verbatim>\<open>body\<close> that allows the components \<^verbatim>\<open>section\<close> and
  \<^verbatim>\<open>quote\<close>.
\<close>

definition body_attr :: attribute where
  "body_attr = \<lparr>atype = ''dynamiczone'', component = [], repeatable = False, required = False,
                attr_min = None, attr_max = None, components = [''section'', ''quote'']\<rparr>"

definition page_model :: model where
  "page_model = \<lparr>uid = ''page'', collectionName = ''pages'', primaryKey = ''id'',
                  connection = ''default'', client = ''sqlite3'',
                  attributes = [(''body'', body_attr)], raw_attributes = [(''body'', body_attr)],
                  allAttributes = [''body''], associations = [], timestamps = [],
                  joinTable = ''pages_components''\<rparr>"

definition an_entry :: row where
  "an_entry = \<lparr>tbl = ''pages'', rid = 1, cols = []\<rparr>"

text \<open>
  A store with an article and a page that each own the section 5, through their fields
  \<^verbatim>\<open>sections\<close> and \<^verbatim>\<open>body\<close>.
\<close>

definition a_db :: db where
  "a_db = \<lparr>rows = [\<lparr>tbl = ''articles'', rid = 1, cols = [(''title'', JStr ''A'')]\<rparr>,
                   \<lparr>tbl = ''components_sections'', rid = 5, cols = [(''text'', JStr ''x'')]\<rparr>,
                   \<lparr>tbl = ''pages'', rid = 1, cols = []\<rparr>],
           joins = [\<lparr>jtbl = ''articles_components'', fk = 1, component_type = ''components_sections'',
                     component_id = 5, field = ''sections'', order = 1\<rparr>,
                    \<lparr>jtbl = ''pages_components'', fk = 1, component_type = ''components_sections'',
                     component_id = 5, field = ''body'', order = 1\<rparr>],
           links = [], seq = (\<lambda>t. 10)\<rparr>"

definition a_world :: world where
  "a_world = \<lparr>committed = a_db, scopes = (\<lambda>h. None), next_trx = 0\<rparr>"

definition an_article :: row where
  "an_article = \<lparr>tbl = ''articles'', rid = 1, cols = [(''title'', JStr ''A'')]\<rparr>"

text \<open>
  A model on sqlite with a text, a number and a boolean attribute, and \<^verbatim>\<open>_.toNumber\<close> on
  the values that occur in the example: \<^verbatim>\<open>"42"\<close> is 42, \<^verbatim>\<open>true\<close> is 1, \<^verbatim>\<open>false\<close> is 0.
\<close>

definition post_model :: model where
  "post_model = \<lparr>uid = ''post'', collectionName = ''posts'', primaryKey = ''id'',
                  connection = ''default'', client = ''sqlite3'',
                  attributes = [(''title'', title_attr), (''views'', title_attr\<lparr>atype := ''integer''\<rparr>),
                                (''published'', title_attr\<lparr>atype := ''boolean''\<rparr>)],
                  raw_attributes = [(''title'', title_attr), (''views'', title_attr\<lparr>atype := ''integer''\<rparr>),
                                (''published'', title_attr\<lparr>atype := ''boolean''\<rparr>)],
                  allAttributes = [''title'', ''views'', ''published''], associations = [],
                  timestamps = [], joinTable = ''posts_components''\<rparr>"

definition example_toNumber :: "jsval \<Rightarrow> int option" where
  "example_toNumber v = (if v = JStr ''42'' then Some 42 else if v = JBool True then Some 1
                         else if v = JBool False then Some 0 else None)"

text \<open>The same application on a connection whose client is mssql.\<close>

definition mssql_app :: strapi where
  "mssql_app = app\<lparr>connections := [(''default'', ''mssql'')]\<rparr>"

text \<open>A payload for an article whose \<^verbatim>\<open>sections\<close> is not an array.\<close>

definition bad_article :: jsval where
  "bad_article = JObj [(''title'', JStr ''A''), (''sections'', JStr ''oops'')]"

text \<open>The payload of the concrete scenario: an article with two sections.\<close>

definition two_sections :: jsval where
  "two_sections = JObj [(''title'', JStr ''A''),
                        (''sections'', JArr [JObj [(''text'', JStr ''x'')], JObj [(''text'', JStr ''y'')]])]"

text \<open>
  The store of the concrete scenario after the article with its two sections has been
  created, and two update payloads: one keeps section 2 with a new text and adds a
  section; the other supplies both ids and one more section.
\<close>

definition two_db :: db where
  "two_db = \<lparr>rows = [\<lparr>tbl = ''articles'', rid = 1, cols = [(''title'', JStr ''A'')]\<rparr>,
                     \<lparr>tbl = ''components_sections'', rid = 1, cols = [(''text'', JStr ''x'')]\<rparr>,
                     \<lparr>tbl = ''components_sections'', rid = 2, cols = [(''text'', JStr ''y'')]\<rparr>],
             joins = [\<lparr>jtbl = ''articles_components'', fk = 1, component_type = ''components_sections'',
                       component_id = 1, field = ''sections'', order = 1\<rparr>,
                      \<lparr>jtbl = ''articles_components'', fk = 1, component_type = ''components_sections'',
                       component_id = 2, field = ''sections'', order = 2\<rparr>],
             links = [], seq = (\<lambda>t. 3)\<rparr>"

definition two_world :: world where
  "two_world = \<lparr>committed = two_db, scopes = (\<lambda>h. None), next_trx = 0\<rparr>"

definition new_sections :: jsval where
  "new_sections = JObj [(''sections'', JArr [JObj [(''id'', JNum 2), (''text'', JStr ''y2'')],
                                             JObj [(''text'', JStr ''z'')]])]"

definition extra_section :: jsval where
  "extra_section = JObj [(''sections'', JArr [JObj [(''id'', JNum 1)], JObj [(''id'', JNum 2)],
                                              JObj [(''text'', JStr ''z'')]])]"

text \<open>
  A model with two component fields: \<^verbatim>\<open>Report\<close> with the repeatable component
  \<^verbatim>\<open>sections\<close> and the single component \<^verbatim>\<open>summary\<close> of the component model \<^verbatim>\<open>Quote\<close>;
  a store with a report that owns two sections and a summary; and an update payload with a
  title and sections, and no summary.
\<close>

definition summary_attr :: attribute where
  "summary_attr = \<lparr>atype = ''component'', component = ''quote'', repeatable = False,
                   required = False, attr_min = None, attr_max = None, components = []\<rparr>"

definition report_model :: model where
  "report_model = \<lparr>uid = ''report'', collectionName = ''reports'', primaryKey = ''id'',
                    connection = ''default'', client = ''sqlite3'',
                    attributes = [(''title'', title_attr), (''sections'', sections_attr),
                                  (''summary'', summary_attr)],
                    raw_attributes = [(''title'', title_attr), (''sections'', sections_attr),
                                      (''summary'', summary_attr)],
                    allAttributes = [''title'', ''sections'', ''summary''], associations = [],
                    timestamps = [], joinTable = ''reports_components''\<rparr>"

definition a_report :: row where
  "a_report = \<lparr>tbl = ''reports'', rid = 1, cols = [(''title'', JStr ''A'')]\<rparr>"

definition report_db :: db where
  "report_db = \<lparr>rows = [\<lparr>tbl = ''reports'', rid = 1, cols = [(''title'', JStr ''A'')]\<rparr>,
                        \<lparr>tbl = ''components_sections'', rid = 1, cols = [(''text'', JStr ''x'')]\<rparr>,
                        \<lparr>tbl = ''components_sections'', rid = 2, cols = [(''text'', JStr ''y'')]\<rparr>,
                        \<lparr>tbl = ''components_quotes'', rid = 1, cols = [(''text'', JStr ''q'')]\<rparr>],
                joins = [\<lparr>jtbl = ''reports_components'', fk = 1, component_type = ''components_sections'',
                          component_id = 1, field = ''sections'', order = 1\<rparr>,
                         \<lparr>jtbl = ''reports_components'', fk = 1, component_type = ''components_sections'',
                          component_id = 2, field = ''sections'', order = 2\<rparr>,
                         \<lparr>jtbl = ''reports_components'', fk = 1, component_type = ''components_quotes'',
                          component_id = 1, field = ''summary'', order = 1\<rparr>],
                links = [], seq = (\<lambda>t. 3)\<rparr>"

definition report_world :: world where
  "report_world = \<lparr>committed = report_db, scopes = (\<lambda>h. None), next_trx = 0\<rparr>"

definition report_update :: jsval where
  "report_update = JObj [(''title'', JStr ''B''),
                         (''sections'', JArr [JObj [(''id'', JNum 2), (''text'', JStr ''y2'')],
                                              JObj [(''text'', JStr ''z'')]])]"

section \<open>Properties\<close>

subsection \<open>Errors and validators\<close>

lemma status_http_error [simp]: "status (http_error c msg) = Some c"
  by (simp add: http_error_def)

lemma status_not_related [simp]: "status (not_related key) = Some 400"
  by (simp add: not_related_def)

lemma status_not_found [simp]: "status not_found = Some 404"
  by (simp add: not_found_def)

text \<open>
  C4, as the code has it. The value passes exactly when it is an array of plain objects,
  its length is at least \<open>min\<close> whenever a \<open>min\<close> is set and the field is required or the
  array is not empty, and its length is at most \<open>max\<close> whenever a \<open>max\<close> other than zero is
  set (required or not, empty or not). Every rejection carries status 400. A \<open>max\<close> of zero
  is read as no \<open>max\<close> by the test \<^verbatim>\<open>max && value.length > max\<close>.
\<close>

theorem validateRepeatableInput_rules:
  "(validateRepeatableInput v key attr = Inr () \<longleftrightarrow>
      (\<exists>vs. v = JArr vs \<and> list_all is_plain_object vs
         \<and> (\<forall>m. attr_min attr = Some m \<longrightarrow> (required attr \<or> vs \<noteq> []) \<longrightarrow> m \<le> int (length vs))
         \<and> (\<forall>m. attr_max attr = Some m \<longrightarrow> m \<noteq> 0 \<longrightarrow> int (length vs) \<le> m)))
   \<and> (\<forall>e. validateRepeatableInput v key attr = Inl e \<longrightarrow> status e = Some 400)"
  by (cases v; cases "attr_min attr"; cases "attr_max attr")
     (auto simp: validateRepeatableInput_def configured_def split: if_splits)

theorem validateRepeatableInput_rules_witness:
  "validateRepeatableInput (JArr [an_item, an_item]) ''sections'' sections_attr = Inr ()
   \<and> validateRepeatableInput (JArr []) ''sections'' sections_attr = Inr ()
   \<and> validateRepeatableInput (JArr []) ''sections'' (sections_attr\<lparr>required := True\<rparr>) \<noteq> Inr ()
   \<and> validateRepeatableInput (JArr [an_item, an_item, an_item, an_item]) ''sections'' sections_attr \<noteq> Inr ()"
  using validateRepeatableInput_rules [of "JArr [an_item, an_item]" "''sections''" sections_attr]
        validateRepeatableInput_rules [of "JArr []" "''sections''" sections_attr]
        validateRepeatableInput_rules [of "JArr []" "''sections''" "sections_attr\<lparr>required := True\<rparr>"]
        validateRepeatableInput_rules [of "JArr [an_item, an_item, an_item, an_item]" "''sections''" sections_attr]
  by (simp add: sections_attr_def an_item_def is_plain_object_def)

text \<open>
  C4 as stated fails where the configured \<open>max\<close> is zero: an array of one item is accepted.
\<close>

theorem validateRepeatableInput_max_zero_counterexample:
  "attr_max (sections_attr\<lparr>attr_max := Some 0\<rparr>) = Some 0
   \<and> validateRepeatableInput (JArr [an_item]) ''sections'' (sections_attr\<lparr>attr_max := Some 0\<rparr>) = Inr ()"
  by (simp add: sections_attr_def an_item_def validateRepeatableInput_def configured_def
        is_plain_object_def)

subsection \<open>Decimal texts\<close>

lemma read_nat_snoc: "read_nat (s @ [c]) = 10 * read_nat s + (of_char c - 48)"
  by (simp add: read_nat_def)

lemma of_char_digit: "d < 10 \<Longrightarrow> of_char (digit_char d) - 48 = (d::nat)"
  by (simp add: digit_char_def)

lemma read_show_nat: "read_nat (show_nat n) = n"
proof (induction n rule: show_nat.induct)
  case (1 n)
  show ?case
  proof (cases "n < 10")
    case True
    then show ?thesis
      by (subst show_nat.simps) (simp add: read_nat_def of_char_digit)
  next
    case False
    with 1 have "read_nat (show_nat (n div 10)) = n div 10" by simp
    with False show ?thesis
      by (subst show_nat.simps) (simp add: read_nat_snoc of_char_digit)
  qed
qed

lemma show_nat_inj [simp]: "show_nat a = show_nat b \<longleftrightarrow> a = b"
  by (metis read_show_nat)

lemma show_int_int [simp]: "show_int (int n) = show_nat n"
  by (simp add: show_int_def)

subsection \<open>Asynchronous operations\<close>

lemma io_bind_return [simp]: "io_bind (io_return x) f = f x"
  by (rule ext) (simp add: io_bind_def io_return_def)

lemma io_bind_throw [simp]: "io_bind (io_throw e) f = io_throw e"
  by (rule ext) (simp add: io_bind_def io_throw_def)

lemma io_check_Inl [simp]: "io_check (Inl e) = io_throw e"
  by (rule ext) (simp add: io_check_def io_throw_def)

lemma io_check_Inr [simp]: "io_check (Inr x) = io_return x"
  by (rule ext) (simp add: io_check_def io_return_def)

lemma io_bind_read_db [simp]: "io_bind (read_db t f) g w = g (f (view t w)) w"
  by (simp add: io_bind_def read_db_def)

subsection \<open>The dynamic-zone validator\<close>

lemma has_key_JObj: "has_key (JObj kv) k \<longleftrightarrow> map_of kv k \<noteq> None"
  by (simp add: has_key_def map_of_eq_None_iff)

lemma first_error_None: "first_error f xs = None \<longleftrightarrow> (\<forall>x \<in> set xs. f x = None)"
  by (induction xs) (auto split: option.splits)

lemma first_error_Some: "first_error f xs = Some e \<Longrightarrow> \<exists>x \<in> set xs. f x = Some e"
  by (induction xs) (auto split: option.splits)

lemma dynamiczone_item_error_status: "dynamiczone_item_error key comps x = Some e \<Longrightarrow> status e = Some 400"
  by (auto simp: dynamiczone_item_error_def split: if_splits)

lemma dynamiczone_item_error_None:
  "dynamiczone_item_error key comps x = None \<longleftrightarrow>
     (\<exists>kv c. x = JObj kv \<and> map_of kv ''__component'' = Some (JStr c) \<and> c \<in> set comps)"
  by (cases x)
     (auto simp: dynamiczone_item_error_def is_plain_object_def has_key_JObj get_prop_def
           split: option.splits jsval.splits)

lemma validateDynamiczoneInput_status:
  "validateDynamiczoneInput v key attr = Inl e \<Longrightarrow> status e = Some 400"
  by (cases v)
     (auto simp: validateDynamiczoneInput_def split: option.splits if_splits
           dest!: first_error_Some dynamiczone_item_error_status)

lemma validateDynamiczoneInput_Inr:
  "validateDynamiczoneInput v key attr = Inr () \<Longrightarrow>
     \<exists>vs. v = JArr vs \<and> (\<forall>x \<in> set vs. \<exists>kv c. x = JObj kv \<and> map_of kv ''__component'' = Some (JStr c) \<and> c \<in> set (components attr))"
  by (cases v)
     (auto simp: validateDynamiczoneInput_def first_error_None dynamiczone_item_error_None split: option.splits if_splits)

lemma validateDynamiczoneInput_bad_item:
  assumes "x \<in> set vs" and "\<not> (\<exists>kv c. x = JObj kv \<and> map_of kv ''__component'' = Some (JStr c) \<and> c \<in> set (components attr))"
  shows "\<exists>e. validateDynamiczoneInput (JArr vs) key attr = Inl e \<and> status e = Some 400"
proof (cases "validateDynamiczoneInput (JArr vs) key attr")
  case (Inl e)
  then show ?thesis using validateDynamiczoneInput_status by blast
next
  case (Inr u)
  then have "validateDynamiczoneInput (JArr vs) key attr = Inr ()" by simp
  from validateDynamiczoneInput_Inr[OF this] assms show ?thesis by auto
qed

lemma createComponents_key_dz_invalid:
  "atype attr = ''dynamiczone'' \<Longrightarrow> has_key vals key \<Longrightarrow>
   validateDynamiczoneInput (get_prop vals key) key attr = Inl e \<Longrightarrow>
   createComponents_key cq S m entry vals t key attr w = (Inl e, w)"
  by (simp add: createComponents_key_def io_throw_def)

lemma updateComponents_key_dz_invalid:
  "atype attr = ''dynamiczone'' \<Longrightarrow> map_of (attributes m) key = Some attr \<Longrightarrow> has_key vals key \<Longrightarrow>
   validateDynamiczoneInput (get_prop vals key) key attr = Inl e \<Longrightarrow>
   updateComponents_key cq S m entry vals t key w = (Inl e, w)"
  by (simp add: updateComponents_key_def io_throw_def)

text \<open>
  C5. A dynamic-zone value that passes is an array of plain objects, each with a
  \<^verbatim>\<open>__component\<close> among the allowed identifiers of the field. An array with an item that has
  no \<^verbatim>\<open>__component\<close>, or one that is not an allowed identifier, is rejected with status 400,
  whatever else the item holds. Every rejection has status 400, and when the validator
  rejects the value of a dynamic-zone field, the step of \<^verbatim>\<open>createComponents\<close> and of
  \<^verbatim>\<open>updateComponents\<close> for that field ends with that error and leaves the store as it was.
\<close>

theorem validateDynamiczoneInput_rules:
  "(validateDynamiczoneInput v key attr = Inr () \<longrightarrow>
      (\<exists>vs. v = JArr vs \<and> (\<forall>x \<in> set vs. \<exists>kv c. x = JObj kv \<and> map_of kv ''__component'' = Some (JStr c)
                                       \<and> c \<in> set (components attr))))
   \<and> (\<forall>vs x. v = JArr vs \<and> x \<in> set vs
          \<and> (\<not> has_key x ''__component''
               \<or> \<not> (\<exists>c. get_prop x ''__component'' = JStr c \<and> c \<in> set (components attr)))
        \<longrightarrow> (\<exists>e. validateDynamiczoneInput v key attr = Inl e \<and> status e = Some 400))
   \<and> (\<forall>e. validateDynamiczoneInput v key attr = Inl e \<longrightarrow>
          status e = Some 400
          \<and> (atype attr = ''dynamiczone'' \<and> has_key vals key \<and> get_prop vals key = v \<longrightarrow>
               createComponents_key cq S m entry vals t key attr w = (Inl e, w)
               \<and> (map_of (attributes m) key = Some attr \<longrightarrow>
                    updateComponents_key cq S m entry vals t key w = (Inl e, w))))"
proof (intro conjI allI impI)
  assume "validateDynamiczoneInput v key attr = Inr ()"
  then show "\<exists>vs. v = JArr vs \<and> (\<forall>x \<in> set vs. \<exists>kv c. x = JObj kv \<and> map_of kv ''__component'' = Some (JStr c)
                                       \<and> c \<in> set (components attr))"
    by (rule validateDynamiczoneInput_Inr)
next
  fix vs x
  assume a: "v = JArr vs \<and> x \<in> set vs
          \<and> (\<not> has_key x ''__component''
               \<or> \<not> (\<exists>c. get_prop x ''__component'' = JStr c \<and> c \<in> set (components attr)))"
  then have "\<not> (\<exists>kv c. x = JObj kv \<and> map_of kv ''__component'' = Some (JStr c) \<and> c \<in> set (components attr))"
    by (auto simp: has_key_JObj get_prop_def)
  with a show "\<exists>e. validateDynamiczoneInput v key attr = Inl e \<and> status e = Some 400"
    using validateDynamiczoneInput_bad_item by blast
next
  fix e assume "validateDynamiczoneInput v key attr = Inl e"
  then show "status e = Some 400" by (rule validateDynamiczoneInput_status)
next
  fix e assume "validateDynamiczoneInput v key attr = Inl e"
     and "atype attr = ''dynamiczone'' \<and> has_key vals key \<and> get_prop vals key = v"
  then show "createComponents_key cq S m entry vals t key attr w = (Inl e, w)"
    by (simp add: createComponents_key_dz_invalid)
next
  fix e assume "validateDynamiczoneInput v key attr = Inl e"
     and "atype attr = ''dynamiczone'' \<and> has_key vals key \<and> get_prop vals key = v"
     and "map_of (attributes m) key = Some attr"
  then show "updateComponents_key cq S m entry vals t key w = (Inl e, w)"
    using updateComponents_key_dz_invalid [of attr m key vals e] by auto
qed

theorem validateDynamiczoneInput_rules_witness:
  "validateDynamiczoneInput (JArr [JObj [(''__component'', JStr ''section''), (''text'', JStr ''x'')]])
      ''body'' body_attr = Inr ()
   \<and> (\<exists>e. validateDynamiczoneInput (JArr [an_item]) ''body'' body_attr = Inl e \<and> status e = Some 400
          \<and> createComponents_key (strapi_query app 1) app page_model an_entry
               (JObj [(''body'', JArr [an_item])]) None ''body'' body_attr empty_world = (Inl e, empty_world)
          \<and> updateComponents_key (strapi_query app 1) app page_model an_entry
               (JObj [(''body'', JArr [an_item])]) None ''body'' empty_world = (Inl e, empty_world))"
  using validateDynamiczoneInput_rules [of "JArr [an_item]" "''body''" body_attr
          "JObj [(''body'', JArr [an_item])]" "strapi_query app 1" app page_model an_entry None
          empty_world]
  by (simp add: validateDynamiczoneInput_def dynamiczone_item_error_def is_plain_object_def
        has_key_def get_prop_def body_attr_def an_item_def page_model_def configured_def)

subsection \<open>Not found\<close>

lemma filter_none: "(\<forall>r \<in> set xs. \<not> P r) \<Longrightarrow> filter P xs = []"
  by (induction xs) auto

text \<open>
  C8. When no row of the model's table matches the filter, \<^verbatim>\<open>update\<close> rejects with the
  not-found error and the store is as before; the same holds for single-entity delete when
  no row matches the key. The not-found error has status 404.
\<close>

theorem not_found_without_writes:
  "((\<forall>r \<in> set (table_rows (collectionName m) (view t w)). \<not> where_matches params r) \<longrightarrow>
      update cq S m params vals t w = (Inl not_found, w))
   \<and> ((\<forall>r \<in> set (table_rows (collectionName m) (view t w)). \<not> where_matches [(primaryKey m, i)] r) \<longrightarrow>
      deleteOne cq S m i t w = (Inl not_found, w))
   \<and> status not_found = Some 404"
  by (simp add: update_def deleteOne_def where_fetch_def filter_none io_throw_def not_found_def)

theorem not_found_without_writes_witness:
  "update (strapi_query app 1) app article_model [(''id'', JNum 7)] (JObj [(''title'', JStr ''A'')]) None empty_world
     = (Inl not_found, empty_world)
   \<and> deleteOne (strapi_query app 1) app article_model (JNum 7) None empty_world = (Inl not_found, empty_world)
   \<and> status not_found = Some 404"
  using not_found_without_writes [of article_model None empty_world "[(''id'', JNum 7)]"
          "strapi_query app 1" app "JObj [(''title'', JStr ''A'')]" "JNum 7"]
  by (simp add: table_rows_def view_def empty_world_def empty_db_def article_model_def)

subsection \<open>Delete through the primary key\<close>

lemma same_value_id [simp]: "same_value (column e ''id'') (JNum (int n)) \<longleftrightarrow> rid e = n"
  by (simp add: same_value_def column_def to_json_def get_prop_def js_toString_def)

lemma get_prop_to_json_id [simp]: "get_prop (to_json r) ''id'' = JNum (int (rid r))"
  by (simp add: to_json_def get_prop_def)

lemma filter_hd_in: "filter P xs = r # rs \<Longrightarrow> r \<in> set xs \<and> P r"
proof -
  assume "filter P xs = r # rs"
  then have "r \<in> set (filter P xs)" by simp
  then show ?thesis by simp
qed

lemma tbl_table_rows: "r \<in> set (table_rows c d) \<Longrightarrow> tbl r = c"
  by (simp add: table_rows_def)




subsection \<open>Referential integrity of supplied component ids\<close>

lemma io_bind_apply_throw [simp]: "io_throw e w = (Inl e, w)"
  by (simp add: io_throw_def)

lemma join_fetchAll_joined: "join_fetchAll (joinTable m) (rid entry) key t = read_db t (joined m entry key)"
  by (simp add: join_fetchAll_def joined_def [abs_def])

lemma deleteOldComponents_not_related:
  assumes "ids_to_keep (primaryKey cm) (component_items v) = Inr keep"
    and "i \<in> set keep"
    and "\<forall>j \<in> set (joined m entry key (view t w)). show_nat (component_id j) \<noteq> i"
  shows "deleteOldComponents cq m entry v key (Some cm) t w = (Inl (not_related key), w)"
proof -
  have k: "(case component_items v of [] \<Rightarrow> Inr [] | a # as \<Rightarrow> ids_to_keep (primaryKey cm) (component_items v)) = Inr keep"
    using assms(1) by (cases "component_items v") auto
  have "\<not> list_all (\<lambda>i. i \<in> set (map (\<lambda>el. show_nat (component_id el)) (joined m entry key (view t w)))) keep"
    using assms(2,3) by (force simp: list_all_iff)
  then show ?thesis
    using k
    by (simp add: deleteOldComponents_def component_items_def[symmetric] join_fetchAll_joined Let_def
             del: list_all_iff cong: list.case_cong)
qed

lemma all_has_known:
  assumes "\<forall>el \<in> set allIds. snd el \<noteq> None"
  shows "all_has allIds k = Inr (\<exists>el \<in> set allIds. fst el = fst k \<and> (\<exists>c. snd el = Some c \<and> uid c = uid (snd k)))"
  using assms by (induction allIds) (auto split: option.splits)

lemma dz_verify_known:
  assumes "\<forall>el \<in> set allIds. snd el \<noteq> None"
    and "k \<in> set keep"
    and "\<not> (\<exists>el \<in> set allIds. fst el = fst k \<and> (\<exists>c. snd el = Some c \<and> uid c = uid (snd k)))"
  shows "dz_verify key allIds keep = Inl (not_related key)"
  using assms(2,3)
proof (induction keep)
  case Nil
  then show ?case by simp
next
  case (Cons a keep)
  show ?case
  proof (cases "\<exists>el \<in> set allIds. fst el = fst a \<and> (\<exists>c. snd el = Some c \<and> uid c = uid (snd a))")
    case True
    with Cons have "k \<in> set keep" by auto
    moreover have "all_has allIds a = Inr True"
      using True all_has_known[OF assms(1), of a] by simp
    ultimately show ?thesis using Cons by simp
  next
    case False
    then have "all_has allIds a = Inr False"
      using all_has_known[OF assms(1), of a] by simp
    then show ?thesis by simp
  qed
qed

lemma deleteDynamicZoneOldComponents_not_related:
  assumes "dz_ids_to_keep S vs = Inr keep"
    and "\<forall>j \<in> set (joined m entry key (view t w)). component_of_type S (component_type j) \<noteq> None"
    and "(i, c) \<in> set keep"
    and "\<forall>j \<in> set (joined m entry key (view t w)).
            \<not> (show_nat (component_id j) = i
               \<and> (\<exists>c'. component_of_type S (component_type j) = Some c' \<and> uid c' = uid c))"
  shows "deleteDynamicZoneOldComponents cq S m entry (JArr vs) key t w = (Inl (not_related key), w)"
proof -
  let ?all = "map (\<lambda>el. (show_nat (component_id el), component_of_type S (component_type el)))
                (joined m entry key (view t w))"
  have 1: "\<forall>el \<in> set ?all. snd el \<noteq> None" using assms(2) by auto
  have 2: "\<not> (\<exists>el \<in> set ?all. fst el = fst (i, c) \<and> (\<exists>c'. snd el = Some c' \<and> uid c' = uid (snd (i, c))))"
    using assms(4) by auto
  have "dz_verify key ?all keep = Inl (not_related key)"
    by (rule dz_verify_known[OF 1 assms(3) 2])
  then show ?thesis using assms(1)
    by (simp add: deleteDynamicZoneOldComponents_def join_fetchAll_joined Let_def)
qed

lemma io_bind_Inl: "m w = (Inl e, w') \<Longrightarrow> io_bind m f w = (Inl e, w')"
  by (simp add: io_bind_def)

lemma io_bind_Inr: "m w = (Inr a, w') \<Longrightarrow> io_bind m f w = f a w'"
  by (simp add: io_bind_def)

lemma updateComponents_key_component:
  assumes "map_of (attributes m) key = Some attr" "atype attr = ''component''"
    "has_key vals key"
    "(if repeatable attr then validateRepeatableInput (get_prop vals key) key attr
      else validateNonRepeatableInput (get_prop vals key) key attr) = Inr ()"
    "deleteOldComponents cq m entry (get_prop vals key) key (map_of (strapi_components S) (component attr)) t w = (Inl e, w')"
  shows "updateComponents_key cq S m entry vals t key w = (Inl e, w')"
  using assms by (auto simp: updateComponents_key_def Let_def split: if_splits intro: io_bind_Inl)

lemma updateComponents_key_dynamiczone:
  assumes "map_of (attributes m) key = Some attr" "atype attr = ''dynamiczone''"
    "has_key vals key"
    "validateDynamiczoneInput (get_prop vals key) key attr = Inr ()"
    "deleteDynamicZoneOldComponents cq S m entry (get_prop vals key) key t w = (Inl e, w')"
  shows "updateComponents_key cq S m entry vals t key w = (Inl e, w')"
  using assms by (auto simp: updateComponents_key_def Let_def split: if_splits intro: io_bind_Inl)


lemma show_nat_digit: "n < 10 \<Longrightarrow> show_nat n = [digit_char n]"
  by (subst show_nat.simps) simp


subsection \<open>Search\<close>

lemma holds_from_or:
  "\<forall>c \<in> set cs. fst c = OrWhere \<Longrightarrow> holds_from sat acc cs \<longleftrightarrow> acc \<or> (\<exists>c \<in> set cs. sat (snd c))"
proof (induction cs arbitrary: acc)
  case Nil
  then show ?case by simp
next
  case (Cons c cs)
  obtain k p where c: "c = (k, p)" by (cases c)
  with Cons.prems have k: "k = OrWhere" by simp
  from Cons.prems have "\<forall>c \<in> set cs. fst c = OrWhere" by simp
  from Cons.IH[OF this] show ?case by (auto simp: c k)
qed

lemma where_holds_or:
  "\<forall>c \<in> set cs. fst c = OrWhere \<Longrightarrow> where_holds sat cs \<longleftrightarrow> cs = [] \<or> (\<exists>c \<in> set cs. sat (snd c))"
  by (cases cs) (force simp: holds_from_or)+

lemma buildSearchQuery_all_or: "\<forall>c \<in> set (buildSearchQuery toNumber m params). fst c = OrWhere"
  by (auto simp: buildSearchQuery_def Let_def)


lemma searchable_post:
  "searchable post_model [''string'', ''text''] = [''title'']"
  "searchable post_model [''integer'', ''decimal'', ''float''] = [''views'']"
  "searchable post_model [''boolean''] = [''published'']"
  by (simp_all add: searchable_def post_model_def title_attr_def)



subsection \<open>Transactions\<close>

named_theorems scoped_intros

lemma scoped_return [scoped_intros]: "scoped h (io_return x)"
  by (simp add: scoped_def io_return_def)

lemma scoped_throw [scoped_intros]: "scoped h (io_throw e)"
  by (simp add: scoped_def io_throw_def)

lemma scoped_check [scoped_intros]: "scoped h (io_check r)"
  by (simp add: scoped_def io_check_def)

lemma scoped_read_db [scoped_intros]: "scoped h (read_db t f)"
  by (simp add: scoped_def read_db_def)

lemma scoped_run_db [scoped_intros]: "scoped h (run_db (Some h) f)"
  by (auto simp: scoped_def run_db_def set_view_def split: prod.splits option.splits)

lemma scoped_bind [scoped_intros]:
  assumes "scoped h m" and "\<And>a. scoped h (f a)"
  shows "scoped h (io_bind m f)"
  unfolding scoped_def
proof (intro allI impI)
  fix w :: world assume o: "scopes w h \<noteq> None"
  obtain r w1 where m: "m w = (r, w1)" by (cases "m w")
  from assms(1) o m have 1: "committed w1 = committed w" "next_trx w1 = next_trx w"
     "scopes w1 h \<noteq> None" "\<forall>h'. h' \<noteq> h \<longrightarrow> scopes w1 h' = scopes w h'"
    by (auto simp: scoped_def dest!: spec[of _ w])
  show "committed (snd (io_bind m f w)) = committed w
         \<and> next_trx (snd (io_bind m f w)) = next_trx w
         \<and> scopes (snd (io_bind m f w)) h \<noteq> None
         \<and> (\<forall>h'. h' \<noteq> h \<longrightarrow> scopes (snd (io_bind m f w)) h' = scopes w h')"
  proof (cases r)
    case (Inl e)
    with m 1 show ?thesis by (simp add: io_bind_def)
  next
    case (Inr a)
    from assms(2)[of a] 1(3) have "committed (snd (f a w1)) = committed w1"
      "next_trx (snd (f a w1)) = next_trx w1" "scopes (snd (f a w1)) h \<noteq> None"
      "\<forall>h'. h' \<noteq> h \<longrightarrow> scopes (snd (f a w1)) h' = scopes w1 h'"
      by (auto simp: scoped_def dest!: spec[of _ w1])
    with m 1 Inr show ?thesis by (simp add: io_bind_def)
  qed
qed

lemma scoped_for_each [scoped_intros]:
  "(\<And>x. scoped h (f x)) \<Longrightarrow> scoped h (for_each f xs)"
  by (induction xs) (auto intro: scoped_intros)

lemma scoped_promise_all [scoped_intros]:
  "(\<And>x. scoped h (f x)) \<Longrightarrow> scoped h (promise_all f xs)"
  by (induction xs) (auto intro!: scoped_intros)

lemma wrapTransaction_handle: "wrapTransaction S m fn (Some h) = fn (Some h)"
  by (simp add: wrapTransaction_def)

lemma scoped_statements [scoped_intros]:
  "scoped h (where_fetch m params (Some h))"
  "scoped h (forge_save m data (Some h))"
  "scoped h (entry_save entry data (Some h))"
  "scoped h (where_destroy m i (Some h))"
  "scoped h (join_forge_save j (Some h))"
  "scoped h (join_where_save jt e ct ci key ord (Some h))"
  "scoped h (join_fetchAll jt e key (Some h))"
  "scoped h (join_where_destroy jt e key (Some h))"
  "scoped h (join_query_destroy jt cond (Some h))"
  "scoped h (updateRelations m v vals (Some h))"
  "scoped h (find_entries m params (Some h))"
  by (simp_all add: where_fetch_def forge_save_def entry_save_def where_destroy_def join_forge_save_def
        join_where_save_def join_fetchAll_def join_where_destroy_def join_query_destroy_def
        updateRelations_def find_entries_def scoped_intros)

lemma scoped_findOne [scoped_intros]: "scoped h (findOne m params (Some h))"
  by (simp add: findOne_def scoped_intros)

lemma cq_scopedD:
  "cquery_scoped h cq \<Longrightarrow> scoped h (q_create cq m vals (Some h))"
  "cquery_scoped h cq \<Longrightarrow> scoped h (q_update cq m params vals (Some h))"
  "cquery_scoped h cq \<Longrightarrow> scoped h (q_delete cq m params (Some h))"
  by (simp_all add: cquery_scoped_def)

lemma scoped_createComponentAndLink [scoped_intros]:
  "cquery_scoped h cq \<Longrightarrow> scoped h (createComponentAndLink cq m entry (Some h) cm v key ord)"
  by (auto simp: createComponentAndLink_def intro!: scoped_intros cq_scopedD split: option.split)

lemma scoped_createComponents_key [scoped_intros]:
  "cquery_scoped h cq \<Longrightarrow> scoped h (createComponents_key cq S m entry vals (Some h) key attr)"
  by (auto simp: createComponents_key_def Let_def intro!: scoped_intros split: prod.split)

lemma scoped_createComponents [scoped_intros]:
  "cquery_scoped h cq \<Longrightarrow> scoped h (createComponents cq S m entry vals (Some h))"
  by (auto simp: createComponents_def intro!: scoped_intros split: option.split)

lemma scoped_deleteOldComponents [scoped_intros]:
  "cquery_scoped h cq \<Longrightarrow> scoped h (deleteOldComponents cq m entry v key cm (Some h))"
  by (auto simp: deleteOldComponents_def Let_def intro!: scoped_intros cq_scopedD split: option.split)

lemma scoped_deleteDynamicZoneOldComponents [scoped_intros]:
  "cquery_scoped h cq \<Longrightarrow> scoped h (deleteDynamicZoneOldComponents cq S m entry v key (Some h))"
  by (auto simp: deleteDynamicZoneOldComponents_def Let_def intro!: scoped_intros cq_scopedD split: prod.split)

lemma scoped_updateOrCreateComponentAndLink [scoped_intros]:
  "cquery_scoped h cq \<Longrightarrow> scoped h (updateOrCreateComponentAndLink cq m entry (Some h) cm key v ord)"
  by (auto simp: updateOrCreateComponentAndLink_def intro!: scoped_intros cq_scopedD split: option.split)

lemma scoped_updateComponents_key [scoped_intros]:
  "cquery_scoped h cq \<Longrightarrow> scoped h (updateComponents_key cq S m entry vals (Some h) key)"
  by (auto simp: updateComponents_key_def Let_def intro!: scoped_intros split: prod.split option.split)

lemma scoped_updateComponents [scoped_intros]:
  "cquery_scoped h cq \<Longrightarrow> scoped h (updateComponents cq S m entry vals (Some h))"
  by (auto simp: updateComponents_def intro!: scoped_intros)

lemma scoped_deleteComponents_compo [scoped_intros]:
  "cquery_scoped h cq \<Longrightarrow> scoped h (deleteComponents_compo cq S js (Some h) compo)"
  by (auto simp: deleteComponents_compo_def Let_def intro!: scoped_intros cq_scopedD split: option.split)

lemma scoped_deleteComponents_key [scoped_intros]:
  "cquery_scoped h cq \<Longrightarrow> scoped h (deleteComponents_key cq S m entry (Some h) key attr)"
  by (auto simp: deleteComponents_key_def Let_def intro!: scoped_intros cq_scopedD split: option.split)

lemma scoped_deleteComponents [scoped_intros]:
  "cquery_scoped h cq \<Longrightarrow> scoped h (deleteComponents cq S m entry (Some h))"
  by (auto simp: deleteComponents_def intro!: scoped_intros split: option.split)

lemma scoped_runCreate [scoped_intros]:
  "cquery_scoped h cq \<Longrightarrow> scoped h (runCreate cq S m vals (Some h))"
  by (auto simp: runCreate_def intro!: scoped_intros)

lemma scoped_runUpdate [scoped_intros]:
  "cquery_scoped h cq \<Longrightarrow> scoped h (runUpdate cq S m params vals entry (Some h))"
  by (auto simp: runUpdate_def intro!: scoped_intros)

lemma scoped_runDelete [scoped_intros]:
  "cquery_scoped h cq \<Longrightarrow> scoped h (runDelete cq S m entry (Some h))"
  by (auto simp: runDelete_def intro!: scoped_intros)

lemma scoped_create [scoped_intros]:
  "cquery_scoped h cq \<Longrightarrow> scoped h (create cq S m vals (Some h))"
  by (simp add: create_def wrapTransaction_handle scoped_intros)

lemma scoped_update [scoped_intros]:
  "cquery_scoped h cq \<Longrightarrow> scoped h (update cq S m params vals (Some h))"
  by (auto simp: update_def wrapTransaction_handle intro!: scoped_intros split: option.split)

lemma scoped_deleteOne [scoped_intros]:
  "cquery_scoped h cq \<Longrightarrow> scoped h (deleteOne cq S m i (Some h))"
  by (auto simp: deleteOne_def wrapTransaction_handle intro!: scoped_intros split: option.split)

lemma scoped_deleteMany [scoped_intros]:
  "cquery_scoped h cq \<Longrightarrow> scoped h (deleteMany cq S m params (Some h))"
  by (auto simp: deleteMany_def intro!: scoped_intros split: list.split)

lemma cquery_scoped_strapi_query: "cquery_scoped h (strapi_query S depth)"
proof (induction depth)
  case 0
  show ?case by (simp add: cquery_scoped_def scoped_intros)
next
  case (Suc depth)
  then show ?case by (simp add: cquery_scoped_def scoped_intros)
qed

lemma transaction_opened:
  "transaction fn w =
     (case fn (Some (next_trx w)) (opened w) of
        (Inl e, w2) \<Rightarrow> (Inl e, w2\<lparr>scopes := (scopes w2)(next_trx w := None)\<rparr>)
      | (Inr a, w2) \<Rightarrow> (Inr a, w2\<lparr>committed := view (Some (next_trx w)) w2,
                                   scopes := (scopes w2)(next_trx w := None)\<rparr>))"
  by (simp add: transaction_def opened_def Let_def)

lemma scoped_opened:
  assumes "scoped (next_trx w) m"
  shows "committed (snd (m (opened w))) = committed w"
proof -
  have "scopes (opened w) (next_trx w) \<noteq> None" by (simp add: opened_def)
  with assms have "committed (snd (m (opened w))) = committed (opened w)"
    by (simp add: scoped_def)
  then show ?thesis by (simp add: opened_def)
qed

lemma transaction_rollback:
  assumes "scoped (next_trx w) (fn (Some (next_trx w)))" and "transaction fn w = (Inl e, w')"
  shows "committed w' = committed w"
proof -
  obtain r w2 where f: "fn (Some (next_trx w)) (opened w) = (r, w2)"
    by (cases "fn (Some (next_trx w)) (opened w)")
  from scoped_opened[OF assms(1)] f have "committed w2 = committed w" by simp
  with assms(2) f show ?thesis
    by (cases r) (auto simp: transaction_opened)
qed

lemma transaction_commit:
  assumes "transaction fn w = (Inr a, w')"
  shows "\<exists>w2. fn (Some (next_trx w)) (opened w) = (Inr a, w2)
              \<and> committed w' = view (Some (next_trx w)) w2"
proof -
  obtain r w2 where f: "fn (Some (next_trx w)) (opened w) = (r, w2)"
    by (cases "fn (Some (next_trx w)) (opened w)")
  with assms show ?thesis
    by (cases r) (auto simp: transaction_opened)
qed

lemma wrapTransaction_other:
  "map_of (connections S) (connection m) = Some c \<Longrightarrow> c \<noteq> ''mssql'' \<Longrightarrow>
   wrapTransaction S m fn None = transaction fn"
  by (simp add: wrapTransaction_def)

lemma wrapTransaction_mssql:
  "map_of (connections S) (connection m) = Some ''mssql'' \<Longrightarrow> wrapTransaction S m fn t = fn t"
  by (simp add: wrapTransaction_def)

lemma update_rollback:
  assumes c: "map_of (connections S) (connection m) = Some c" "c \<noteq> ''mssql''"
    and s: "\<And>entry. scoped (next_trx w) (runUpdate cq S m params vals entry (Some (next_trx w)))"
    and u: "update cq S m params vals None w = (Inl e, w')"
  shows "committed w' = committed w"
proof (cases "filter (where_matches params) (table_rows (collectionName m) (view None w))")
  case Nil
  with u show ?thesis by (simp add: update_def where_fetch_def io_throw_def)
next
  case (Cons entry es)
  with u have "transaction (runUpdate cq S m params vals entry) w = (Inl e, w')"
    by (simp add: update_def where_fetch_def wrapTransaction_other[OF c])
  from transaction_rollback[OF s this] show ?thesis .
qed

text \<open>
  C1, as the code has it, for the query builder over component models of any nesting depth.
  The bodies \<^verbatim>\<open>runCreate\<close>, \<^verbatim>\<open>runUpdate\<close> and \<^verbatim>\<open>runDelete\<close>, run with a handle, write
  to the working copy of that handle only. With a handle given, \<^verbatim>\<open>wrapTransaction\<close> runs the
  body with that handle and opens nothing. On an mssql connection it runs the body with
  whatever it was given, a handle or none, and opens nothing. On another connection and
  with no handle it opens one transaction: when the body (for \<^verbatim>\<open>update\<close>, also the fetch
  before it) rejects, the committed data are as before the call; when it resolves, the
  committed data are the working copy the body has left.
\<close>

theorem writes_in_one_transaction:
  assumes "cq = strapi_query S depth"
  shows
  "(\<forall>h. scoped h (runCreate cq S m vals (Some h))
        \<and> scoped h (runUpdate cq S m params vals entry (Some h))
        \<and> scoped h (runDelete cq S m entry (Some h))
        \<and> create cq S m vals (Some h) = runCreate cq S m vals (Some h)
        \<and> wrapTransaction S m (runUpdate cq S m params vals entry) (Some h)
            = runUpdate cq S m params vals entry (Some h)
        \<and> wrapTransaction S m (runDelete cq S m entry) (Some h) = runDelete cq S m entry (Some h))
   \<and> (map_of (connections S) (connection m) = Some ''mssql'' \<longrightarrow>
        (\<forall>t. create cq S m vals t = runCreate cq S m vals t
            \<and> wrapTransaction S m (runUpdate cq S m params vals entry) t
                = runUpdate cq S m params vals entry t
            \<and> wrapTransaction S m (runDelete cq S m entry) t = runDelete cq S m entry t))
   \<and> (\<forall>c. map_of (connections S) (connection m) = Some c \<and> c \<noteq> ''mssql'' \<longrightarrow>
        (\<forall>e w'. create cq S m vals None w = (Inl e, w') \<longrightarrow> committed w' = committed w)
      \<and> (\<forall>e w'. update cq S m params vals None w = (Inl e, w') \<longrightarrow> committed w' = committed w)
      \<and> (\<forall>e w'. wrapTransaction S m (runDelete cq S m entry) None w = (Inl e, w')
                   \<longrightarrow> committed w' = committed w)
      \<and> (\<forall>a w'. create cq S m vals None w = (Inr a, w') \<longrightarrow>
            (\<exists>w2. runCreate cq S m vals (Some (next_trx w)) (opened w) = (Inr a, w2)
                  \<and> committed w' = view (Some (next_trx w)) w2))
      \<and> (\<forall>a w'. wrapTransaction S m (runUpdate cq S m params vals entry) None w = (Inr a, w') \<longrightarrow>
            (\<exists>w2. runUpdate cq S m params vals entry (Some (next_trx w)) (opened w) = (Inr a, w2)
                  \<and> committed w' = view (Some (next_trx w)) w2))
      \<and> (\<forall>a w'. wrapTransaction S m (runDelete cq S m entry) None w = (Inr a, w') \<longrightarrow>
            (\<exists>w2. runDelete cq S m entry (Some (next_trx w)) (opened w) = (Inr a, w2)
                  \<and> committed w' = view (Some (next_trx w)) w2)))"
proof -
  have cqs: "\<And>h. cquery_scoped h cq" using assms by (simp add: cquery_scoped_strapi_query)
  have A: "\<forall>h. scoped h (runCreate cq S m vals (Some h))
        \<and> scoped h (runUpdate cq S m params vals entry (Some h))
        \<and> scoped h (runDelete cq S m entry (Some h))
        \<and> create cq S m vals (Some h) = runCreate cq S m vals (Some h)
        \<and> wrapTransaction S m (runUpdate cq S m params vals entry) (Some h)
            = runUpdate cq S m params vals entry (Some h)
        \<and> wrapTransaction S m (runDelete cq S m entry) (Some h) = runDelete cq S m entry (Some h)"
    using cqs by (simp add: scoped_runCreate scoped_runUpdate scoped_runDelete create_def wrapTransaction_handle)
  have B: "map_of (connections S) (connection m) = Some ''mssql'' \<longrightarrow>
        (\<forall>t. create cq S m vals t = runCreate cq S m vals t
            \<and> wrapTransaction S m (runUpdate cq S m params vals entry) t
                = runUpdate cq S m params vals entry t
            \<and> wrapTransaction S m (runDelete cq S m entry) t = runDelete cq S m entry t)"
    by (simp add: create_def wrapTransaction_mssql)
  have C: "\<forall>c. map_of (connections S) (connection m) = Some c \<and> c \<noteq> ''mssql'' \<longrightarrow>
        (\<forall>e w'. create cq S m vals None w = (Inl e, w') \<longrightarrow> committed w' = committed w)
      \<and> (\<forall>e w'. update cq S m params vals None w = (Inl e, w') \<longrightarrow> committed w' = committed w)
      \<and> (\<forall>e w'. wrapTransaction S m (runDelete cq S m entry) None w = (Inl e, w')
                   \<longrightarrow> committed w' = committed w)
      \<and> (\<forall>a w'. create cq S m vals None w = (Inr a, w') \<longrightarrow>
            (\<exists>w2. runCreate cq S m vals (Some (next_trx w)) (opened w) = (Inr a, w2)
                  \<and> committed w' = view (Some (next_trx w)) w2))
      \<and> (\<forall>a w'. wrapTransaction S m (runUpdate cq S m params vals entry) None w = (Inr a, w') \<longrightarrow>
            (\<exists>w2. runUpdate cq S m params vals entry (Some (next_trx w)) (opened w) = (Inr a, w2)
                  \<and> committed w' = view (Some (next_trx w)) w2))
      \<and> (\<forall>a w'. wrapTransaction S m (runDelete cq S m entry) None w = (Inr a, w') \<longrightarrow>
            (\<exists>w2. runDelete cq S m entry (Some (next_trx w)) (opened w) = (Inr a, w2)
                  \<and> committed w' = view (Some (next_trx w)) w2))"
  proof (intro allI impI, elim conjE)
    fix c assume c: "map_of (connections S) (connection m) = Some c" "c \<noteq> ''mssql''"
    note wt = wrapTransaction_other[OF c]
    show "(\<forall>e w'. create cq S m vals None w = (Inl e, w') \<longrightarrow> committed w' = committed w)
      \<and> (\<forall>e w'. update cq S m params vals None w = (Inl e, w') \<longrightarrow> committed w' = committed w)
      \<and> (\<forall>e w'. wrapTransaction S m (runDelete cq S m entry) None w = (Inl e, w')
                   \<longrightarrow> committed w' = committed w)
      \<and> (\<forall>a w'. create cq S m vals None w = (Inr a, w') \<longrightarrow>
            (\<exists>w2. runCreate cq S m vals (Some (next_trx w)) (opened w) = (Inr a, w2)
                  \<and> committed w' = view (Some (next_trx w)) w2))
      \<and> (\<forall>a w'. wrapTransaction S m (runUpdate cq S m params vals entry) None w = (Inr a, w') \<longrightarrow>
            (\<exists>w2. runUpdate cq S m params vals entry (Some (next_trx w)) (opened w) = (Inr a, w2)
                  \<and> committed w' = view (Some (next_trx w)) w2))
      \<and> (\<forall>a w'. wrapTransaction S m (runDelete cq S m entry) None w = (Inr a, w') \<longrightarrow>
            (\<exists>w2. runDelete cq S m entry (Some (next_trx w)) (opened w) = (Inr a, w2)
                  \<and> committed w' = view (Some (next_trx w)) w2))"
    proof (intro conjI allI impI)
      fix e w' assume "create cq S m vals None w = (Inl e, w')"
      then show "committed w' = committed w"
        using transaction_rollback[where fn = "runCreate cq S m vals" and w = w, OF scoped_runCreate[OF cqs]]
        by (simp add: create_def wt)
    next
      fix e w' assume "update cq S m params vals None w = (Inl e, w')"
      then show "committed w' = committed w"
        using update_rollback[OF c scoped_runUpdate[OF cqs]] by blast
    next
      fix e w' assume "wrapTransaction S m (runDelete cq S m entry) None w = (Inl e, w')"
      then show "committed w' = committed w"
        using transaction_rollback[where fn = "runDelete cq S m entry" and w = w, OF scoped_runDelete[OF cqs]]
        by (simp add: wt)
    next
      fix a w' assume "create cq S m vals None w = (Inr a, w')"
      then show "\<exists>w2. runCreate cq S m vals (Some (next_trx w)) (opened w) = (Inr a, w2)
                  \<and> committed w' = view (Some (next_trx w)) w2"
        using transaction_commit by (simp add: create_def wt)
    next
      fix a w' assume "wrapTransaction S m (runUpdate cq S m params vals entry) None w = (Inr a, w')"
      then show "\<exists>w2. runUpdate cq S m params vals entry (Some (next_trx w)) (opened w) = (Inr a, w2)
                  \<and> committed w' = view (Some (next_trx w)) w2"
        using transaction_commit by (simp add: wt)
    next
      fix a w' assume "wrapTransaction S m (runDelete cq S m entry) None w = (Inr a, w')"
      then show "\<exists>w2. runDelete cq S m entry (Some (next_trx w)) (opened w) = (Inr a, w2)
                  \<and> committed w' = view (Some (next_trx w)) w2"
        using transaction_commit by (simp add: wt)
    qed
  qed
  from A B C show ?thesis by blast
qed

lemma create_bad_article:
  "map_of (connections S) ''default'' = Some c \<Longrightarrow>
   runCreate cq S article_model bad_article t w
     = (Inl (http_error 400 ''Component sections is repetable. Expected an array''),
        set_view t ((view t w)\<lparr>rows := rows (view t w) @ [\<lparr>tbl = ''articles'', rid = seq (view t w) ''articles'', cols = [(''title'', JStr ''A'')]\<rparr>],
                               seq := (seq (view t w))(''articles'' := Suc (seq (view t w) ''articles''))\<rparr>) w)"
  by (simp add: runCreate_def forge_save_def run_db_def io_bind_def selectAttributes_def bad_article_def
        props_of_def article_model_def excludedKeys_def assocKeys_def componentKeys_def sections_attr_def
        title_attr_def createComponents_def createComponents_key_def has_key_def get_prop_def
        validateRepeatableInput_def io_throw_def Let_def)

text \<open>
  C1 as stated fails on an mssql connection with no handle: the body runs outside any
  transaction, and when \<^verbatim>\<open>create\<close> rejects a payload whose components are invalid, the
  entity row it has inserted stays in the committed data.
\<close>

theorem create_mssql_counterexample:
  "map_of (connections mssql_app) (connection article_model) = Some ''mssql''
   \<and> fst (create (strapi_query mssql_app 1) mssql_app article_model bad_article None empty_world)
       = Inl (http_error 400 ''Component sections is repetable. Expected an array'')
   \<and> rows (committed empty_world) = []
   \<and> rows (committed (snd (create (strapi_query mssql_app 1) mssql_app article_model bad_article None empty_world)))
       = [\<lparr>tbl = ''articles'', rid = 1, cols = [(''title'', JStr ''A'')]\<rparr>]"
proof -
  have c: "map_of (connections mssql_app) ''default'' = Some ''mssql''"
    by (simp add: mssql_app_def)
  have n: "connection article_model = ''default''"
    by (simp add: article_model_def)
  show ?thesis
    by (simp add: create_def wrapTransaction_def c n create_bad_article[OF c]
          set_view_def view_def empty_world_def empty_db_def del: strapi_query.simps)
qed

theorem writes_in_one_transaction_witness:
  "fst (create (strapi_query app 1) app article_model bad_article None empty_world)
       = Inl (http_error 400 ''Component sections is repetable. Expected an array'')
   \<and> committed (snd (create (strapi_query app 1) app article_model bad_article None empty_world))
       = committed empty_world"
proof -
  have c: "map_of (connections app) ''default'' = Some ''sqlite3''"
    by (simp add: app_def)
  have c': "map_of (connections app) (connection article_model) = Some ''sqlite3''"
    by (simp add: app_def article_model_def)
  have f: "fst (create (strapi_query app 1) app article_model bad_article None empty_world)
       = Inl (http_error 400 ''Component sections is repetable. Expected an array'')"
    by (simp add: create_def wrapTransaction_def c c' transaction_opened create_bad_article[OF c]
          del: strapi_query.simps)
  then obtain w' where "create (strapi_query app 1) app article_model bad_article None empty_world
       = (Inl (http_error 400 ''Component sections is repetable. Expected an array''), w')"
    by (cases "create (strapi_query app 1) app article_model bad_article None empty_world") auto
  then have "committed w' = committed empty_world"
    using writes_in_one_transaction [of "strapi_query app 1" app 1 article_model bad_article "[]" an_article empty_world] c'
    by auto
  with f \<open>create (strapi_query app 1) app article_model bad_article None empty_world
       = (Inl (http_error 400 ''Component sections is repetable. Expected an array''), w')\<close>
  show ?thesis by simp
qed

subsection \<open>Creating components\<close>

lemma view_set_view [simp]: "view t (set_view t d w) = d"
  by (simp add: view_def set_view_def split: option.splits)

lemma set_view_set_view [simp]: "set_view t d2 (set_view t d1 w) = set_view t d2 w"
  by (simp add: set_view_def split: option.splits)

lemma set_view_view [simp]: "set_view t (view t w) w = w"
  by (simp add: set_view_def view_def fun_upd_idem split: option.splits)

lemma run_db_at: "run_db t F (set_view t d w) = (fst (F d), set_view t (snd (F d)) w)"
  by (simp add: run_db_def split: prod.splits)

lemma read_db_at: "read_db t f (set_view t d w) = (Inr (f d), set_view t d w)"
  by (simp add: read_db_def)

lemma json_id_to_json [simp]: "json_id (to_json r) = Some (rid r)"
  by (simp add: json_id_def)

lemma updateRelations_at:
  "updateRelations m i vals t (set_view t d w) =
     (Inr (case filter (\<lambda>r. same_value (column r ''id'') i) (table_rows (collectionName m) d) of
               [] \<Rightarrow> JNull | r # _ \<Rightarrow> to_json r),
      set_view t (d\<lparr>links := relate m i vals (links d)\<rparr>) w)"
  by (simp add: updateRelations_def run_db_at)

lemma forge_save_at:
  "forge_save m data t (set_view t d w) =
     (Inr \<lparr>tbl = collectionName m, rid = seq d (collectionName m), cols = data\<rparr>,
      set_view t (d\<lparr>rows := rows d @ [\<lparr>tbl = collectionName m, rid = seq d (collectionName m), cols = data\<rparr>],
                    seq := (seq d)(collectionName m := Suc (seq d (collectionName m)))\<rparr>) w)"
  by (simp add: forge_save_def run_db_at Let_def)

lemma createComponents_flat: "flat cm \<Longrightarrow> createComponents cq S cm entry vals t = io_return ()"
  by (simp add: createComponents_def flat_def)

lemma create_flat:
  assumes "flat cm"
  shows "\<exists>js. create cq S cm v (Some h) (set_view (Some h) d w)
                = (Inr js, set_view (Some h) (insert_component cm v d) w)
              \<and> json_id js = Some (seq d (collectionName cm))"
proof -
  let ?r = "\<lparr>tbl = collectionName cm, rid = seq d (collectionName cm), cols = selectAttributes cm v\<rparr>"
  let ?d1 = "d\<lparr>rows := rows d @ [?r],
                seq := (seq d)(collectionName cm := Suc (seq d (collectionName cm)))\<rparr>"
  let ?F = "filter (\<lambda>r. same_value (column r ''id'') (JNum (int (seq d (collectionName cm)))))
              (table_rows (collectionName cm) ?d1)"
  have "?r \<in> set ?F" by (simp add: table_rows_def)
  then have "?F \<noteq> []" by (metis empty_iff list.set(1))
  then obtain r rs where F: "?F = r # rs" by (cases ?F) auto
  then have "r \<in> set ?F" by simp
  then have r: "rid r = seq d (collectionName cm)" by simp
  have "create cq S cm v (Some h) (set_view (Some h) d w)
          = (Inr (to_json r), set_view (Some h) (insert_component cm v d) w)"
    using F
    by (simp add: create_def wrapTransaction_def runCreate_def io_bind_def forge_save_at
          createComponents_flat[OF assms] io_return_def updateRelations_at insert_component_def)
  with r show ?thesis by simp
qed

lemma join_forge_save_at:
  "join_forge_save j t (set_view t d w) = (Inr (), set_view t (d\<lparr>joins := joins d @ [j]\<rparr>) w)"
  by (simp add: join_forge_save_def run_db_at)

lemma strapi_query_Suc_create: "q_create (strapi_query S (Suc n)) = create (strapi_query S n) S"
  by simp

lemma createComponentAndLink_flat:
  assumes "flat cm"
  shows "createComponentAndLink (strapi_query S (Suc n)) m entry (Some h) (Some cm) v key ord
           (set_view (Some h) d w)
         = (Inr (), set_view (Some h) (add_component m entry key cm ord v d) w)"
proof -
  from create_flat[OF assms, of "strapi_query S n" S v h d w]
  obtain js where js: "create (strapi_query S n) S cm v (Some h) (set_view (Some h) d w)
                = (Inr js, set_view (Some h) (insert_component cm v d) w)"
     "json_id js = Some (seq d (collectionName cm))" by blast
  then show ?thesis
    by (simp add: createComponentAndLink_def io_bind_def join_forge_save_at add_component_def
          link_component_def)
qed

lemma for_each_fold:
  assumes "\<And>x d. x \<in> set xs \<Longrightarrow> f x (set_view t d w) = (Inr (), set_view t (g x d) w)"
  shows "for_each f xs (set_view t d w) = (Inr (), set_view t (fold g xs d) w)"
  using assms
proof (induction xs arbitrary: d)
  case Nil
  then show ?case by (simp add: io_return_def)
next
  case (Cons x xs)
  then show ?case by (simp add: io_bind_def)
qed

lemma io_throw_apply [simp]: "io_throw e w = (Inl e, w)"
  by (simp add: io_throw_def)

lemma io_return_apply [simp]: "io_return x w = (Inr x, w)"
  by (simp add: io_return_def)

lemma indexed_JArr [simp]: "indexed (JArr vs) = enumerate 0 vs"
  by (simp add: indexed_def)

lemma in_enumerate_set: "(i, x) \<in> set (enumerate k xs) \<Longrightarrow> x \<in> set xs"
  by (auto simp: enumerate_eq_zip dest: set_zip_rightD)

lemma validate_repeatable_items:
  "validateRepeatableInput v key attr = Inr () \<Longrightarrow> \<exists>vs. v = JArr vs"
  by (cases v) (auto simp: validateRepeatableInput_def)

lemma validate_nonrepeatable_value:
  "validateNonRepeatableInput v key attr = Inr () \<Longrightarrow> v = JNull \<or> is_plain_object v"
  by (auto simp: validateNonRepeatableInput_def split: if_splits)

lemma component_model_JStr [simp]: "component_model S (JStr c) = map_of (strapi_components S) c"
  by (simp add: component_model_def template_text_def)

lemma dz_item_model:
  assumes "validateDynamiczoneInput (JArr vs) key attr = Inr ()" "x \<in> set vs"
    "atype attr = ''dynamiczone''" "field_models_flat S attr"
  shows "\<exists>cm. component_model S (get_prop x ''__component'') = Some cm \<and> flat cm"
proof -
  from validateDynamiczoneInput_Inr[OF assms(1)] assms(2)
  obtain kv c where x: "x = JObj kv" "map_of kv ''__component'' = Some (JStr c)" "c \<in> set (components attr)"
    by auto
  from assms(3,4) x(3) obtain cm where "map_of (strapi_components S) c = Some cm" "flat cm"
    by (auto simp: field_models_flat_def list_all_iff split: option.splits)
  with x show ?thesis by (simp add: get_prop_def)
qed

lemma createComponents_key_valid:
  assumes k: "atype attr = ''component'' \<or> atype attr = ''dynamiczone''"
    and f: "field_models_flat S attr"
    and h: "has_key vals key"
    and v: "validate_field (get_prop vals key) key attr = Inr ()"
  shows "createComponents_key (strapi_query S (Suc n)) S m entry vals (Some h) key attr (set_view (Some h) d w)
         = (Inr (), set_view (Some h) (create_field S m entry key attr (get_prop vals key) d) w)"
proof (cases "atype attr = ''dynamiczone''")
  case True
  with v have val: "validateDynamiczoneInput (get_prop vals key) key attr = Inr ()"
    by (simp add: validate_field_def)
  then obtain vs where vs: "get_prop vals key = JArr vs"
    using validateDynamiczoneInput_Inr by blast
  let ?f = "\<lambda>(idx, val). createComponentAndLink (strapi_query S (Suc n)) m entry (Some h)
                    (component_model S (get_prop val ''__component''))
                    (omit val ''__component'') key (idx + 1)"
  let ?g = "\<lambda>(idx, val). add_component m entry key (the (item_model S attr val)) (idx + 1) (item_data attr val)"
  have step: "\<And>x d. x \<in> set (enumerate 0 vs) \<Longrightarrow>
     ?f x (set_view (Some h) d w) = (Inr (), set_view (Some h) (?g x d) w)"
  proof -
    fix x d assume xin: "x \<in> set (enumerate 0 vs)"
    obtain idx val where x1: "x = (idx, val)" by (cases x)
    have x2: "val \<in> set vs" using xin in_enumerate_set[of idx val 0 vs] by (simp add: x1)
    note x = x1 x2
    from dz_item_model[OF val[unfolded vs] x(2) True f]
    obtain cm where cm: "component_model S (get_prop val ''__component'') = Some cm" "flat cm" by blast
    show "?f x (set_view (Some h) d w) = (Inr (), set_view (Some h) (?g x d) w)"
      using cm True
      by (simp add: x createComponentAndLink_flat[OF cm(2)] item_model_def item_data_def
               del: strapi_query.simps)
  qed
  show ?thesis
    using True h val vs
      for_each_fold[where f = ?f and g = ?g and xs = "enumerate 0 vs" and t = "Some h" and w = w and d = d,
        OF step]
    by (simp add: createComponents_key_def io_bind_def create_field_def field_items_def fold_map
          comp_def case_prod_unfold del: strapi_query.simps)
next
  case False
  with k have c: "atype attr = ''component''" by simp
  from f c False obtain cm where cm: "map_of (strapi_components S) (component attr) = Some cm" "flat cm"
    by (auto simp: field_models_flat_def split: option.splits)
  show ?thesis
  proof (cases "repeatable attr")
    case True
    with v False have val: "validateRepeatableInput (get_prop vals key) key attr = Inr ()"
      by (simp add: validate_field_def)
    then obtain vs where vs: "get_prop vals key = JArr vs"
      using validate_repeatable_items by blast
    let ?f = "\<lambda>(idx, val). createComponentAndLink (strapi_query S (Suc n)) m entry (Some h)
                      (Some cm) val key (idx + 1)"
    let ?g = "\<lambda>(idx, val). add_component m entry key cm (idx + 1) val"
    have step: "\<And>x d. x \<in> set (enumerate 0 vs) \<Longrightarrow>
       ?f x (set_view (Some h) d w) = (Inr (), set_view (Some h) (?g x d) w)"
      by (auto simp: createComponentAndLink_flat[OF cm(2)] simp del: strapi_query.simps)
    show ?thesis
      using True c h val vs cm
        for_each_fold[where f = ?f and g = ?g and xs = "enumerate 0 vs" and t = "Some h" and w = w and d = d,
          OF step]
      by (simp add: createComponents_key_def io_bind_def create_field_def field_items_def fold_map
            comp_def case_prod_unfold item_model_def item_data_def del: strapi_query.simps)
  next
    case nr: False
    with v False have val: "validateNonRepeatableInput (get_prop vals key) key attr = Inr ()"
      by (simp add: validate_field_def)
    show ?thesis
      using nr c h val cm
      by (simp add: createComponents_key_def io_bind_def create_field_def field_items_def
            item_model_def item_data_def createComponentAndLink_flat[OF cm(2)] del: strapi_query.simps)
  qed
qed

lemma fold_add_component_records:
  "\<exists>R J. rows (fold (\<lambda>(ord, x). add_component m entry key (cmf x) ord (df x)) xs d) = rows d @ R
        \<and> joins (fold (\<lambda>(ord, x). add_component m entry key (cmf x) ord (df x)) xs d) = joins d @ J
        \<and> map (\<lambda>r. (tbl r, cols r)) R
            = map (\<lambda>(ord, x). (collectionName (cmf x), selectAttributes (cmf x) (df x))) xs
        \<and> map (\<lambda>j. (jtbl j, fk j, field j, order j)) J
            = map (\<lambda>(ord, x). (joinTable m, rid entry, key, ord)) xs
        \<and> map (\<lambda>j. (component_type j, component_id j)) J = map (\<lambda>r. (tbl r, rid r)) R"
proof (induction xs arbitrary: d)
  case Nil
  show ?case by simp
next
  case (Cons a xs)
  obtain ord x where a: "a = (ord, x)" by (cases a)
  let ?d1 = "add_component m entry key (cmf x) ord (df x) d"
  from Cons[of ?d1] obtain R J where
    1: "rows (fold (\<lambda>(ord, x). add_component m entry key (cmf x) ord (df x)) xs ?d1) = rows ?d1 @ R"
       "joins (fold (\<lambda>(ord, x). add_component m entry key (cmf x) ord (df x)) xs ?d1) = joins ?d1 @ J"
       "map (\<lambda>r. (tbl r, cols r)) R
            = map (\<lambda>(ord, x). (collectionName (cmf x), selectAttributes (cmf x) (df x))) xs"
       "map (\<lambda>j. (jtbl j, fk j, field j, order j)) J
            = map (\<lambda>(ord, x). (joinTable m, rid entry, key, ord)) xs"
       "map (\<lambda>j. (component_type j, component_id j)) J = map (\<lambda>r. (tbl r, rid r)) R"
    by blast
  let ?r = "\<lparr>tbl = collectionName (cmf x), rid = seq d (collectionName (cmf x)),
             cols = selectAttributes (cmf x) (df x)\<rparr>"
  let ?j = "\<lparr>jtbl = joinTable m, fk = rid entry, component_type = collectionName (cmf x),
             component_id = seq d (collectionName (cmf x)), field = key, order = ord\<rparr>"
  have 2: "rows ?d1 = rows d @ [?r]" "joins ?d1 = joins d @ [?j]"
    by (simp_all add: add_component_def link_component_def insert_component_def)
  show ?case
    apply (rule exI[of _ "?r # R"], rule exI[of _ "?j # J"])
    using 1 2 by (simp add: a)
qed

lemma create_field_records:
  "\<exists>R J. rows (create_field S m entry key attr v d) = rows d @ R
        \<and> joins (create_field S m entry key attr v d) = joins d @ J
        \<and> map (\<lambda>r. (tbl r, cols r)) R
            = map (\<lambda>(ord, x). (collectionName (the (item_model S attr x)),
                                selectAttributes (the (item_model S attr x)) (item_data attr x)))
                (field_items attr v)
        \<and> map (\<lambda>j. (jtbl j, fk j, field j, order j)) J
            = map (\<lambda>(ord, x). (joinTable m, rid entry, key, ord)) (field_items attr v)
        \<and> map (\<lambda>j. (component_type j, component_id j)) J = map (\<lambda>r. (tbl r, rid r)) R"
  unfolding create_field_def
  by (rule fold_add_component_records[where cmf = "\<lambda>x. the (item_model S attr x)" and df = "item_data attr"])

lemma field_items_array:
  "atype attr = ''dynamiczone'' \<or> repeatable attr \<Longrightarrow>
   field_items attr (JArr vs) = zip [1..<Suc (length vs)] vs"
proof -
  have "map (\<lambda>(idx, x). (idx + 1, x)) (zip [0..<length vs] vs) = zip (map Suc [0..<length vs]) vs"
    by (simp add: zip_map1 case_prod_unfold)
  then show "atype attr = ''dynamiczone'' \<or> repeatable attr \<Longrightarrow> ?thesis"
    by (auto simp: field_items_def enumerate_eq_zip map_Suc_upt)
qed

lemma createComponents_key_absent:
  assumes "atype attr = ''component'' \<or> atype attr = ''dynamiczone''" "\<not> has_key vals key"
  shows "required attr \<Longrightarrow> \<exists>e. createComponents_key cq S m entry vals t key attr w = (Inl e, w) \<and> status e = Some 400"
    and "\<not> required attr \<Longrightarrow> createComponents_key cq S m entry vals t key attr w = (Inr (), w)"
  using assms by (auto simp: createComponents_key_def Let_def)

lemma createComponents_key_invalid:
  assumes "atype attr = ''component'' \<or> atype attr = ''dynamiczone''" "has_key vals key"
    "validate_field (get_prop vals key) key attr = Inl e"
  shows "createComponents_key cq S m entry vals t key attr w = (Inl e, w)"
  using assms by (auto simp: createComponents_key_def Let_def validate_field_def split: if_splits)


lemma flat_section_model: "flat section_model"
  by (simp add: flat_def componentKeys_def section_model_def)

lemma flat_quote_model: "flat quote_model"
  by (simp add: flat_def componentKeys_def quote_model_def title_attr_def)

lemma sections_models_flat: "field_models_flat app sections_attr"
  by (simp add: field_models_flat_def sections_attr_def app_def flat_section_model)


lemma patch_Nil [simp]: "patch cs [] = cs"
  by (simp add: patch_def)

lemma where_fetch_at:
  "where_fetch m params t (set_view t d w) =
     (Inr (case filter (where_matches params) (table_rows (collectionName m) d) of
             [] \<Rightarrow> None | r # _ \<Rightarrow> Some r), set_view t d w)"
  by (simp add: where_fetch_def read_db_at)

lemma find_entries_at:
  "find_entries m params t (set_view t d w) =
     (Inr (map to_json (apply_limit params (filter (filter_matches params) (table_rows (collectionName m) d)))),
      set_view t d w)"
  by (simp add: find_entries_def read_db_at)

lemma updateComponents_flat: "flat cm \<Longrightarrow> updateComponents cq S cm entry vals t = io_return ()"
  by (simp add: updateComponents_def flat_def)

lemma deleteComponents_flat: "flat cm \<Longrightarrow> deleteComponents cq S cm entry t = io_return ()"
  by (simp add: deleteComponents_def flat_def)

lemma js_toString_show: "js_toString v = Some (show_nat i) \<Longrightarrow> same_value (column r ''id'') v \<longleftrightarrow> rid r = i"
  by (simp add: same_value_def column_def to_json_def get_prop_def js_toString_def)

lemma filter_nonempty_hd:
  assumes "x \<in> set xs" "P x"
  obtains y ys where "filter P xs = y # ys" "y \<in> set xs" "P y"
proof -
  from assms have "x \<in> set (filter P xs)" by simp
  then have "filter P xs \<noteq> []" by (metis empty_iff list.set(1))
  then obtain y ys where f: "filter P xs = y # ys" by (cases "filter P xs") auto
  then have "y \<in> set (filter P xs)" by simp
  then have "y \<in> set xs" "P y" by simp_all
  with f show ?thesis using that by blast
qed

lemma entry_save_at:
  assumes "e \<in> set (rows d)"
  shows "entry_save e data t (set_view t d w) =
     (Inr (e\<lparr>cols := patch (cols e) data\<rparr>),
      set_view t (d\<lparr>rows := map (\<lambda>r. if tbl r = tbl e \<and> rid r = rid e
                              then r\<lparr>cols := patch (cols r) data\<rparr> else r) (rows d)\<rparr>) w)"
proof -
  from assms have "list_ex (\<lambda>r. tbl r = tbl e \<and> rid r = rid e) (rows d)"
    by (auto simp: list_ex_iff)
  then show ?thesis by (simp add: entry_save_def run_db_at)
qed

lemma map_patch_rows_Nil:
  "map (\<lambda>r. if tbl r = c \<and> rid r = i then r\<lparr>cols := patch (cols r) []\<rparr> else r) rs = rs"
  by (induction rs) auto

lemma table_rows_map_cols:
  "table_rows c (d\<lparr>rows := map (\<lambda>r. if P r then r\<lparr>cols := f r\<rparr> else r) (rows d)\<rparr>)
     = map (\<lambda>r. if P r then r\<lparr>cols := f r\<rparr> else r) (table_rows c d)"
  by (simp add: table_rows_def filter_map comp_def cong: if_cong)


lemma in_table_rows: "r \<in> set (table_rows c d) \<longleftrightarrow> r \<in> set (rows d) \<and> tbl r = c"
  by (auto simp: table_rows_def)

lemma filter_nonempty_ex:
  assumes "x \<in> set xs" "P x"
  shows "\<exists>y ys. filter P xs = y # ys \<and> y \<in> set xs \<and> P y"
proof -
  from assms have "x \<in> set (filter P xs)" by simp
  then have "filter P xs \<noteq> []" by (metis empty_iff list.set(1))
  then obtain y ys where f: "filter P xs = y # ys" by (cases "filter P xs") auto
  then have "y \<in> set (filter P xs)" by simp
  then have "y \<in> set xs" "P y" by simp_all
  with f show ?thesis by blast
qed

lemma io_bind_Inr': "m w = (Inr a, w') \<Longrightarrow> io_bind m f w = f a w'"
  by (simp add: io_bind_def)

lemma update_flat:
  assumes fl: "flat cm"
    and idv: "js_toString idv = Some (show_nat i)"
    and ex: "\<exists>r \<in> set (table_rows (collectionName cm) d). rid r = i"
  shows "\<exists>js. update cq S cm [(''id'', idv)] v (Some h) (set_view (Some h) d w)
                = (Inr js, set_view (Some h) (patch_component cm i v d) w)
              \<and> json_id js = Some i"
proof -
  let ?c = "collectionName cm"
  let ?W = "set_view (Some h) d w"
  from ex obtain r0 where r0: "r0 \<in> set (table_rows ?c d)" "rid r0 = i" by blast
  have wm: "\<And>r. where_matches [(''id'', idv)] r \<longleftrightarrow> rid r = i"
    by (simp add: where_matches_def js_toString_show[OF idv])
  from filter_nonempty_ex[OF r0(1), of "where_matches [(''id'', idv)]"] r0(2)
  obtain e es where e: "filter (where_matches [(''id'', idv)]) (table_rows ?c d) = e # es"
    "e \<in> set (table_rows ?c d)" "rid e = i" by (auto simp: wm)
  then have et: "tbl e = ?c" "e \<in> set (rows d)" by (simp_all add: in_table_rows)
  let ?data = "selectAttributes cm v"
  let ?f = "\<lambda>r. if tbl r = ?c \<and> rid r = i then r\<lparr>cols := patch (cols r) ?data\<rparr> else r"
  let ?d1 = "d\<lparr>rows := map ?f (rows d)\<rparr>"
  let ?W1 = "set_view (Some h) ?d1 w"
  have f1: "where_fetch cm [(''id'', idv)] (Some h) ?W = (Inr (Some e), ?W)"
    by (simp add: where_fetch_at e)
  have u1: "update cq S cm [(''id'', idv)] v (Some h) ?W = runUpdate cq S cm [(''id'', idv)] v e (Some h) ?W"
    by (simp add: update_def wrapTransaction_def
          io_bind_Inr'[where m = "where_fetch cm [(''id'', idv)] (Some h)", OF f1])
  have s0: "(if length ?data > 0 then entry_save e ?data (Some h) else io_return e) ?W
              = (Inr (if length ?data > 0 then e\<lparr>cols := patch (cols e) ?data\<rparr> else e), ?W1)"
  proof (cases "?data = []")
    case True
    then have "?d1 = d" by (simp add: map_patch_rows_Nil cong: if_cong)
    with True show ?thesis by (simp add: io_return_def)
  next
    case False
    then show ?thesis by (simp add: entry_save_at[OF et(2)] et e)
  qed
  have s1: "updateComponents cq S cm ue v (Some h) ?W1 = (Inr (), ?W1)" for ue
    by (simp add: updateComponents_flat[OF fl] io_return_def)
  have u2: "runUpdate cq S cm [(''id'', idv)] v e (Some h) ?W
             = (if length (pickRelations cm v) > 0
                then updateRelations cm (JNum (int (rid e))) (pickRelations cm v) (Some h)
                else findOne cm [(''id'', idv)] (Some h)) ?W1"
    unfolding runUpdate_def
    by (simp only: io_bind_Inr'[where m = "if 0 < length ?data then entry_save e ?data (Some h) else io_return e", OF s0]
          io_bind_Inr'[where m = "updateComponents cq S cm ue v (Some h)" for ue, OF s1])
  have "?f r0 \<in> set (table_rows ?c ?d1)"
    using r0(1) by (simp add: table_rows_map_cols)
  moreover have "rid (?f r0) = i" using r0 by simp
  ultimately obtain r1 where r1: "r1 \<in> set (table_rows ?c ?d1)" "rid r1 = i" by blast
  show ?thesis
  proof (cases "pickRelations cm v = []")
    case True
    have fm: "\<And>r. filter_matches ((''_limit'', JNum 1) # [(''id'', idv)]) r \<longleftrightarrow> rid r = i"
      by (simp add: filter_matches_def is_in_key_def js_toString_show[OF idv])
    from filter_nonempty_ex[OF r1(1), of "filter_matches ((''_limit'', JNum 1) # [(''id'', idv)])"] r1(2)
    obtain y ys where y: "filter (filter_matches ((''_limit'', JNum 1) # [(''id'', idv)])) (table_rows ?c ?d1) = y # ys"
      "rid y = i" by (auto simp: fm)
    have "findOne cm [(''id'', idv)] (Some h) ?W1 = (Inr (to_json y), ?W1)"
      by (simp add: findOne_def io_bind_def find_entries_at apply_limit_def y io_return_def)
    moreover have "patch_component cm i v d = ?d1"
      using True by (simp add: patch_component_def)
    ultimately have "update cq S cm [(''id'', idv)] v (Some h) ?W
           = (Inr (to_json y), set_view (Some h) (patch_component cm i v d) w)"
      using True by (simp add: u1 u2)
    with y show ?thesis by simp
  next
    case False
    from filter_nonempty_ex[OF r1(1), of "\<lambda>r. same_value (column r ''id'') (JNum (int i))"] r1(2)
    obtain y ys where y: "filter (\<lambda>r. same_value (column r ''id'') (JNum (int i))) (table_rows ?c ?d1) = y # ys"
      "rid y = i" by auto
    have "updateRelations cm (JNum (int (rid e))) (pickRelations cm v) (Some h) ?W1
            = (Inr (to_json y), set_view (Some h) (?d1\<lparr>links := relate cm (JNum (int i)) (pickRelations cm v) (links ?d1)\<rparr>) w)"
      unfolding updateRelations_at e(3) y(1) by simp
    moreover have "patch_component cm i v d = ?d1\<lparr>links := relate cm (JNum (int i)) (pickRelations cm v) (links ?d1)\<rparr>"
      using False by (simp add: patch_component_def)
    ultimately have "update cq S cm [(''id'', idv)] v (Some h) ?W
           = (Inr (to_json y), set_view (Some h) (patch_component cm i v d) w)"
      using False by (simp add: u1 u2)
    with y show ?thesis by simp
  qed
qed

lemma join_where_save_at:
  "join_where_save jt e ct ci key ord t (set_view t d w) =
     (Inr (), set_view t (d\<lparr>joins := map (\<lambda>j. if jtbl j = jt \<and> fk j = e \<and> component_type j = ct
                                                    \<and> component_id j = ci \<and> field j = key
                                                 then j\<lparr>order := ord\<rparr> else j) (joins d)\<rparr>) w)"
  by (simp add: join_where_save_def run_db_at)

lemma js_toString_to_text: "js_toString v = Some s \<Longrightarrow> to_text v = s"
  by (cases v) (auto simp: js_toString_def)

lemma item_id_show: "flat cm \<Longrightarrow> js_toString (get_prop v ''id'') = Some (show_nat i) \<Longrightarrow> item_id cm v = i"
  by (simp add: item_id_def flat_def js_toString_to_text read_show_nat)

lemma updateOrCreateComponentAndLink_flat:
  assumes fl: "flat cm"
    and idv: "has_key v ''id'' \<Longrightarrow>
              \<exists>i. js_toString (get_prop v ''id'') = Some (show_nat i)
                 \<and> (\<exists>r \<in> set (table_rows (collectionName cm) d). rid r = i)"
  shows "updateOrCreateComponentAndLink (strapi_query S (Suc n)) m entry (Some h) (Some cm) key v ord
           (set_view (Some h) d w)
         = (Inr (), set_view (Some h) (put_component m entry key cm ord v d) w)"
proof (cases "has_key v ''id''")
  case True
  from idv[OF True] obtain i where i: "js_toString (get_prop v ''id'') = Some (show_nat i)"
     "\<exists>r \<in> set (table_rows (collectionName cm) d). rid r = i" by blast
  from update_flat[OF fl i, of "strapi_query S n" S v h w]
  obtain js where js: "update (strapi_query S n) S cm [(''id'', get_prop v ''id'')] v (Some h) (set_view (Some h) d w)
                = (Inr js, set_view (Some h) (patch_component cm i v d) w)" "json_id js = Some i"
    by blast
  have pk: "primaryKey cm = ''id''" using fl by (simp add: flat_def)
  show ?thesis
    using True js
    by (simp add: updateOrCreateComponentAndLink_def pk io_bind_def join_where_save_at
          put_component_def item_id_show[OF fl i(1)] reorder_link_def)
next
  case False
  have pk: "primaryKey cm = ''id''" using fl by (simp add: flat_def)
  from create_flat[OF fl, of "strapi_query S n" S v h d w]
  obtain js where js: "create (strapi_query S n) S cm v (Some h) (set_view (Some h) d w)
                = (Inr js, set_view (Some h) (insert_component cm v d) w)"
     "json_id js = Some (seq d (collectionName cm))" by blast
  show ?thesis
    using False js
    by (simp add: updateOrCreateComponentAndLink_def pk io_bind_def join_forge_save_at
          put_component_def add_component_def link_component_def)
qed

lemma where_destroy_at:
  "where_destroy m i t (set_view t d w) =
     (Inr (), set_view t (d\<lparr>rows := filter (\<lambda>r. \<not> (tbl r = collectionName m \<and> rid r = i)) (rows d)\<rparr>) w)"
  by (simp add: where_destroy_def run_db_at)

lemma deleteOne_flat:
  assumes fl: "flat cm"
    and ex: "\<exists>r \<in> set (table_rows (collectionName cm) d). rid r = i"
  shows "\<exists>js. deleteOne cq S cm (JNum (int i)) (Some h) (set_view (Some h) d w)
                = (Inr js, set_view (Some h) (remove_component cm i d) w)"
proof -
  let ?c = "collectionName cm"
  have pk: "primaryKey cm = ''id''" using fl by (simp add: flat_def)
  from ex obtain r0 where r0: "r0 \<in> set (table_rows ?c d)" "rid r0 = i" by blast
  have wm: "\<And>r. where_matches [(''id'', JNum (int i))] r \<longleftrightarrow> rid r = i"
    by (simp add: where_matches_def)
  from filter_nonempty_ex[OF r0(1), of "where_matches [(''id'', JNum (int i))]"] r0(2)
  obtain e es where e: "filter (where_matches [(''id'', JNum (int i))]) (table_rows ?c d) = e # es"
    "rid e = i" by (auto simp: wm)
  have "deleteOne cq S cm (JNum (int i)) (Some h) (set_view (Some h) d w)
          = (Inr (to_json e), set_view (Some h) (remove_component cm i d) w)"
    by (simp add: deleteOne_def pk io_bind_def where_fetch_at e updateRelations_at wrapTransaction_def
          runDelete_def deleteComponents_flat[OF fl] io_return_def where_destroy_at remove_component_def)
  then show ?thesis by blast
qed

lemma table_rows_remove_component:
  "table_rows c (remove_component cm i d)
     = filter (\<lambda>r. \<not> (tbl r = collectionName cm \<and> rid r = i)) (table_rows c d)"
  by (auto simp: table_rows_def remove_component_def intro: filter_cong)

lemma promise_all_deleteOne:
  assumes fl: "flat cm"
  shows "distinct (map rid rs) \<Longrightarrow>
         \<forall>r \<in> set rs. \<exists>r' \<in> set (table_rows (collectionName cm) d). rid r' = rid r \<Longrightarrow>
         \<exists>js. promise_all (\<lambda>entry. deleteOne cq S cm (get_prop entry ''id'') (Some h)) (map to_json rs)
                 (set_view (Some h) d w)
               = (Inr js, set_view (Some h) (fold (remove_component cm) (map rid rs) d) w)"
proof (induction rs arbitrary: d)
  case Nil
  show ?case by (simp add: io_return_def)
next
  case (Cons r rs)
  from Cons.prems(2) have "\<exists>r' \<in> set (table_rows (collectionName cm) d). rid r' = rid r" by simp
  from deleteOne_flat[OF fl this, of cq S h w]
  obtain j where j: "deleteOne cq S cm (JNum (int (rid r))) (Some h) (set_view (Some h) d w)
                = (Inr j, set_view (Some h) (remove_component cm (rid r) d) w)" by blast
  have d: "distinct (map rid rs)" using Cons.prems(1) by simp
  have "\<forall>x \<in> set rs. \<exists>r' \<in> set (table_rows (collectionName cm) (remove_component cm (rid r) d)). rid r' = rid x"
  proof
    fix x assume x: "x \<in> set rs"
    with Cons.prems(2) obtain r' where r': "r' \<in> set (table_rows (collectionName cm) d)" "rid r' = rid x"
      by auto
    have "rid r \<notin> set (map rid rs)" using Cons.prems(1) by simp
    moreover have "rid x \<in> set (map rid rs)" using x by simp
    ultimately have "rid x \<noteq> rid r" by metis
    with r' show "\<exists>r' \<in> set (table_rows (collectionName cm) (remove_component cm (rid r) d)). rid r' = rid x"
      by (auto simp: table_rows_remove_component)
  qed
  from Cons.IH[OF d this] obtain js where
    js: "promise_all (\<lambda>entry. deleteOne cq S cm (get_prop entry ''id'') (Some h)) (map to_json rs)
           (set_view (Some h) (remove_component cm (rid r) d) w)
         = (Inr js, set_view (Some h) (fold (remove_component cm) (map rid rs) (remove_component cm (rid r) d)) w)"
    by blast
  show ?case
    using j js by (simp add: io_bind_def io_return_def)
qed

lemma is_in_key_id_in [simp]: "is_in_key ''id_in''"
  by (simp add: is_in_key_def)

lemma same_value_id_JStr [simp]: "same_value (column r ''id'') (JStr s) \<longleftrightarrow> show_nat (rid r) = s"
  by (simp add: same_value_def column_def to_json_def get_prop_def js_toString_def)

lemma filter_matches_id_in:
  "filter_matches [(''id_in'', JArr (map JStr del))] r \<longleftrightarrow> show_nat (rid r) \<in> set del"
  by (auto simp: filter_matches_def list_ex_iff)

lemma distinct_map_filter': "distinct (map f xs) \<Longrightarrow> distinct (map f (filter P xs))"
  by (simp add: distinct_map_filter)

lemma deleteMany_in_flat:
  assumes fl: "flat cm"
    and di: "distinct (map rid (table_rows (collectionName cm) d))"
  shows "\<exists>js. deleteMany cq S cm [(''id_in'', JArr (map JStr del))] (Some h) (set_view (Some h) d w)
           = (Inr js, set_view (Some h)
                (fold (remove_component cm)
                   (map rid (filter (\<lambda>r. show_nat (rid r) \<in> set del) (table_rows (collectionName cm) d))) d) w)"
proof -
  let ?M = "filter (\<lambda>r. show_nat (rid r) \<in> set del) (table_rows (collectionName cm) d)"
  have pk: "primaryKey cm = ''id''" using fl by (simp add: flat_def)
  have 1: "distinct (map rid ?M)" using di by (rule distinct_map_filter')
  have 2: "\<forall>r \<in> set ?M. \<exists>r' \<in> set (table_rows (collectionName cm) d). rid r' = rid r" by auto
  from promise_all_deleteOne[OF fl 1 2, of cq S h w] obtain js where
    js: "promise_all (\<lambda>entry. deleteOne cq S cm (get_prop entry ''id'') (Some h)) (map to_json ?M)
                 (set_view (Some h) d w)
               = (Inr js, set_view (Some h) (fold (remove_component cm) (map rid ?M) d) w)" by blast
  have f: "filter (filter_matches [(''id_in'', JArr (map JStr del))]) (table_rows (collectionName cm) d) = ?M"
    by (rule filter_cong) (simp_all add: filter_matches_id_in)
  have "deleteMany cq S cm [(''id_in'', JArr (map JStr del))] (Some h) (set_view (Some h) d w)
           = (Inr (JArr js), set_view (Some h) (fold (remove_component cm) (map rid ?M) d) w)"
    using js
    by (simp add: deleteMany_def pk truthy_def get_prop_def io_bind_def find_entries_at f apply_limit_def
          io_return_def)
  then show ?thesis by blast
qed

lemma join_query_destroy_at:
  "join_query_destroy jt cond t (set_view t d w) =
     (Inr (), set_view t (d\<lparr>joins := filter (\<lambda>j. \<not> (jtbl j = jt \<and> cond j)) (joins d)\<rparr>) w)"
  by (simp add: join_query_destroy_def run_db_at)

lemma join_fetchAll_at:
  "join_fetchAll (joinTable m) (rid entry) key t (set_view t d w) = (Inr (joined m entry key d), set_view t d w)"
  by (simp add: join_fetchAll_joined read_db_at)

lemma ids_to_keep_supplied:
  "ids_to_keep ''id'' items = Inr keep \<Longrightarrow> keep = supplied_ids items"
proof (induction items arbitrary: keep)
  case Nil
  then show ?case by (simp add: supplied_ids_def)
next
  case (Cons x xs)
  show ?case
  proof (cases "has_key x ''id''")
    case True
    with Cons.prems obtain s ss where s: "js_toString (get_prop x ''id'') = Some s"
      "ids_to_keep ''id'' xs = Inr ss" "keep = s # ss"
      by (auto split: option.splits sum.splits)
    with Cons.IH[OF s(2)] True show ?thesis
      by (simp add: supplied_ids_def js_toString_to_text)
  next
    case False
    with Cons show ?thesis by (simp add: supplied_ids_def)
  qed
qed

lemma deleteOldComponents_flat:
  assumes fl: "flat cm"
    and keep: "ids_to_keep ''id'' (component_items v) = Inr keep"
    and sub: "set keep \<subseteq> set (existing_ids m entry key d)"
    and di: "distinct (map rid (table_rows (collectionName cm) d))"
  shows "deleteOldComponents (strapi_query S (Suc n)) m entry v key (Some cm) (Some h) (set_view (Some h) d w)
         = (Inr (), set_view (Some h) (delete_old m entry key cm (ids_to_delete m entry key v d) d) w)"
proof -
  let ?W = "set_view (Some h) d w"
  have pk: "primaryKey cm = ''id''" using fl by (simp add: flat_def)
  have k: "(case component_items v of [] \<Rightarrow> Inr [] | a # as \<Rightarrow> ids_to_keep ''id'' (component_items v)) = Inr keep"
    using keep by (cases "component_items v") auto
  define ex where "ex = map (\<lambda>el. show_nat (component_id el)) (joined m entry key d)"
  define del where "del = filter (\<lambda>i. i \<notin> set keep) ex"
  have all: "list_all (\<lambda>i. i \<in> set ex) keep"
    using sub by (auto simp: list_all_iff existing_ids_def ex_def)
  have del: "ids_to_delete m entry key v d = del"
    using ids_to_keep_supplied[OF keep] by (simp add: ids_to_delete_def existing_ids_def del_def ex_def)
  let ?d1 = "d\<lparr>joins := filter (\<lambda>j. \<not> (jtbl j = joinTable m
                                         \<and> (show_nat (component_id j) \<in> set del \<and> field j = key)))
                            (joins d)\<rparr>"
  have t1: "table_rows (collectionName cm) ?d1 = table_rows (collectionName cm) d"
    by (simp add: table_rows_def)
  from deleteMany_in_flat[OF fl, of ?d1 "strapi_query S n" S del h w] di t1
  obtain js where js: "deleteMany (strapi_query S n) S cm [(''id_in'', JArr (map JStr del))] (Some h)
              (set_view (Some h) ?d1 w)
           = (Inr js, set_view (Some h)
                (fold (remove_component cm)
                   (map rid (filter (\<lambda>r. show_nat (rid r) \<in> set del) (table_rows (collectionName cm) d))) ?d1) w)"
    by auto
  have s1: "io_check (case component_items v of [] \<Rightarrow> Inr []
               | a # as \<Rightarrow> (case Some cm of None \<Rightarrow> Inl (type_error ''Cannot read property primaryKey of undefined'')
                            | Some cm \<Rightarrow> ids_to_keep (primaryKey cm) (component_items v)))
              = io_return keep"
    using k by (simp add: pk cong: list.case_cong)
  have body: "deleteOldComponents (strapi_query S (Suc n)) m entry v key (Some cm) (Some h) ?W
     = (if \<not> list_all (\<lambda>i. i \<in> set ex) keep then io_throw (not_related key)
        else if length del > 0 then
          io_bind (join_query_destroy (joinTable m)
                     (\<lambda>j. show_nat (component_id j) \<in> set del \<and> field j = key) (Some h)) (\<lambda>_.
            io_bind (q_delete (strapi_query S (Suc n)) cm [(primaryKey cm @ ''_in'', JArr (map JStr del))] (Some h))
              (\<lambda>_. io_return ()))
        else io_return ()) ?W"
    unfolding deleteOldComponents_def component_items_def[symmetric] Let_def s1 ex_def del_def
    by (simp only: io_bind_return option.case
          io_bind_Inr'[where m = "join_fetchAll (joinTable m) (rid entry) key (Some h)", OF join_fetchAll_at])
  show ?thesis
  proof (cases "del = []")
    case True
    with all show ?thesis
      unfolding body del delete_old_def by (simp add: io_return_def del: list_all_iff)
  next
    case False
    with all js show ?thesis
      unfolding body del delete_old_def
      by (simp add: pk io_bind_def io_return_def join_query_destroy_at del: list_all_iff)
  qed
qed

lemma for_each_fold_inv:
  assumes "\<And>x d. x \<in> set xs \<Longrightarrow> I d \<Longrightarrow> f x (set_view t d w) = (Inr (), set_view t (g x d) w) \<and> I (g x d)"
    and "I d"
  shows "for_each f xs (set_view t d w) = (Inr (), set_view t (fold g xs d) w)"
  using assms
proof (induction xs arbitrary: d)
  case Nil
  then show ?case by (simp add: io_return_def)
next
  case (Cons x xs)
  from Cons.prems(1)[of x d] Cons.prems(2)
  have 1: "f x (set_view t d w) = (Inr (), set_view t (g x d) w)" "I (g x d)" by simp_all
  have "for_each f xs (set_view t (g x d) w) = (Inr (), set_view t (fold g xs (g x d)) w)"
    by (rule Cons.IH[OF _ 1(2)]) (use Cons.prems(1) in auto)
  with 1 show ?case by (simp add: io_bind_def)
qed

lemma rows_fold_remove_component:
  "rows (fold (remove_component cm) ids d)
     = filter (\<lambda>r. \<not> (tbl r = collectionName cm \<and> rid r \<in> set ids)) (rows d)"
  by (induction ids arbitrary: d) (auto simp: remove_component_def intro: filter_cong)

lemma joins_fold_remove_component [simp]:
  "joins (fold (remove_component cm) ids d) = joins d"
  by (induction ids arbitrary: d) (auto simp: remove_component_def)

lemma seq_fold_remove_component [simp]:
  "seq (fold (remove_component cm) ids d) = seq d"
  by (induction ids arbitrary: d) (auto simp: remove_component_def)

lemma rows_delete_old:
  "rows (delete_old m entry key cm del d)
     = filter (\<lambda>r. \<not> (tbl r = collectionName cm \<and> show_nat (rid r) \<in> set del)) (rows d)"
proof (cases "del = []")
  case True
  then show ?thesis by (simp add: delete_old_def)
next
  case False
  then show ?thesis
    by (auto simp: delete_old_def rows_fold_remove_component table_rows_def intro!: filter_cong)
qed

lemma joins_delete_old:
  "joins (delete_old m entry key cm del d)
     = filter (\<lambda>j. \<not> (jtbl j = joinTable m \<and> field j = key \<and> show_nat (component_id j) \<in> set del)) (joins d)"
  by (auto simp: delete_old_def intro!: filter_cong)

lemma row_kept_put_component:
  assumes "\<exists>r \<in> set (table_rows c d). rid r = i"
  shows "\<exists>r \<in> set (table_rows c (put_component m entry key cm ord v d)). rid r = i"
proof -
  from assms obtain r where r: "r \<in> set (rows d)" "tbl r = c" "rid r = i"
    by (auto simp: table_rows_def)
  let ?f = "\<lambda>r. if tbl r = collectionName cm \<and> rid r = item_id cm v
                 then r\<lparr>cols := patch (cols r) (selectAttributes cm v)\<rparr> else r"
  show ?thesis
  proof (cases "has_key v (primaryKey cm)")
    case True
    have "?f r \<in> set (rows (put_component m entry key cm ord v d))"
      using r(1) True by (simp add: put_component_def reorder_link_def patch_component_def)
    moreover have "tbl (?f r) = c" "rid (?f r) = i" using r by simp_all
    ultimately show ?thesis by (auto simp: table_rows_def simp del: set_map)
  next
    case False
    then have "r \<in> set (rows (put_component m entry key cm ord v d))"
      using r(1) by (simp add: put_component_def add_component_def link_component_def insert_component_def)
    with r show ?thesis by (auto simp: table_rows_def)
  qed
qed

lemma ids_to_keep_readable:
  "ids_to_keep ''id'' items = Inr keep \<Longrightarrow> x \<in> set items \<Longrightarrow> has_key x ''id'' \<Longrightarrow>
   js_toString (get_prop x ''id'') = Some (to_text (get_prop x ''id'')) \<and> to_text (get_prop x ''id'') \<in> set keep"
proof (induction items arbitrary: keep)
  case Nil
  then show ?case by simp
next
  case (Cons y ys)
  show ?case
  proof (cases "has_key y ''id''")
    case True
    with Cons.prems(1) obtain s ss where s: "js_toString (get_prop y ''id'') = Some s"
      "ids_to_keep ''id'' ys = Inr ss" "keep = s # ss"
      by (auto split: option.splits sum.splits)
    show ?thesis
    proof (cases "x = y")
      case True
      with s show ?thesis by (simp add: js_toString_to_text)
    next
      case False
      with Cons.prems(2) have "x \<in> set ys" by simp
      from Cons.IH[OF s(2) this Cons.prems(3)] s(3) show ?thesis by simp
    qed
  next
    case False
    with Cons.prems have "x \<in> set ys" "ids_to_keep ''id'' ys = Inr keep" by auto
    from Cons.IH[OF this(2) this(1) Cons.prems(3)] show ?thesis .
  qed
qed

lemma kept_row_delete_old:
  assumes r: "r \<in> set (table_rows c d)" and s: "show_nat (rid r) \<notin> set del"
  shows "r \<in> set (table_rows c (delete_old m entry key cm del d))"
  using assms by (simp add: in_table_rows rows_delete_old)

lemma supplied_rows_after_delete:
  assumes keep: "ids_to_keep ''id'' items = Inr keep"
    and sub: "set keep \<subseteq> set (existing_ids m entry key d)"
    and inst: "\<forall>j \<in> set (joined m entry key d).
                 \<exists>r \<in> set (table_rows (collectionName cm) d). rid r = component_id j"
    and x: "x \<in> set items" "has_key x ''id''"
    and del: "set del \<inter> set keep = {}"
  shows "\<exists>i. js_toString (get_prop x ''id'') = Some (show_nat i)
           \<and> (\<exists>r \<in> set (table_rows (collectionName cm) (delete_old m entry key cm del d)). rid r = i)"
proof -
  let ?s = "to_text (get_prop x ''id'')"
  from ids_to_keep_readable[OF keep x] have s: "js_toString (get_prop x ''id'') = Some ?s" "?s \<in> set keep"
    by simp_all
  with sub have "?s \<in> set (existing_ids m entry key d)" by blast
  then obtain j where j: "j \<in> set (joined m entry key d)" "?s = show_nat (component_id j)"
    by (auto simp: existing_ids_def)
  from inst j(1) obtain r where r: "r \<in> set (table_rows (collectionName cm) d)" "rid r = component_id j"
    by blast
  have "show_nat (rid r) \<notin> set del" using del s(2) j(2) r(2) by auto
  from kept_row_delete_old[OF r(1) this] r(2) j(2) s(1) show ?thesis by auto
qed

lemma updateComponents_key_component_valid:
  assumes a: "map_of (attributes m) key = Some attr" "atype attr = ''component''"
    and cm: "map_of (strapi_components S) (component attr) = Some cm" "flat cm"
    and hk: "has_key vals key"
    and v: "validate_field (get_prop vals key) key attr = Inr ()"
    and keep: "ids_to_keep ''id'' (component_items (get_prop vals key)) = Inr keep"
    and sub: "set keep \<subseteq> set (existing_ids m entry key d)"
    and di: "distinct (map rid (table_rows (collectionName cm) d))"
    and inst: "\<forall>j \<in> set (joined m entry key d).
                 \<exists>r \<in> set (table_rows (collectionName cm) d). rid r = component_id j"
  shows "updateComponents_key (strapi_query S (Suc n)) S m entry vals (Some h) key (set_view (Some h) d w)
         = (Inr (), set_view (Some h) (update_field S m entry key attr (get_prop vals key) d) w)"
proof -
  define val where "val = get_prop vals key"
  define del where "del = ids_to_delete m entry key val d"
  define d1 where "d1 = delete_old m entry key cm del d"
  define cq where "cq = strapi_query S (Suc n)"
  let ?I = "\<lambda>d'. \<forall>x \<in> set (component_items val). has_key x ''id'' \<longrightarrow>
              (\<exists>i. js_toString (get_prop x ''id'') = Some (show_nat i)
                 \<and> (\<exists>r \<in> set (table_rows (collectionName cm) d'). rid r = i))"
  have nd: "atype attr \<noteq> ''dynamiczone''" using a(2) by simp
  have dl: "deleteOldComponents cq m entry val key (Some cm) (Some h) (set_view (Some h) d w)
              = (Inr (), set_view (Some h) d1 w)"
    unfolding d1_def del_def cq_def
    by (rule deleteOldComponents_flat[OF cm(2) keep[folded val_def] sub di])
  have dk: "set del \<inter> set keep = {}"
    using ids_to_keep_supplied[OF keep] by (auto simp: del_def ids_to_delete_def val_def)
  have I1: "?I d1"
    unfolding d1_def
    using supplied_rows_after_delete[OF keep[folded val_def] sub inst _ _ dk] by blast
  have put: "\<And>x ord d'. x \<in> set (component_items val) \<Longrightarrow> ?I d' \<Longrightarrow>
      updateOrCreateComponentAndLink cq m entry (Some h) (Some cm) key x ord (set_view (Some h) d' w)
        = (Inr (), set_view (Some h) (put_component m entry key cm ord x d') w)
      \<and> ?I (put_component m entry key cm ord x d')"
  proof -
    fix x ord d' assume x: "x \<in> set (component_items val)" and I: "?I d'"
    have "updateOrCreateComponentAndLink cq m entry (Some h) (Some cm) key x ord (set_view (Some h) d' w)
        = (Inr (), set_view (Some h) (put_component m entry key cm ord x d') w)"
      unfolding cq_def by (rule updateOrCreateComponentAndLink_flat[OF cm(2)]) (use x I in blast)
    moreover have "?I (put_component m entry key cm ord x d')"
      using I row_kept_put_component by blast
    ultimately show "updateOrCreateComponentAndLink cq m entry (Some h) (Some cm) key x ord (set_view (Some h) d' w)
        = (Inr (), set_view (Some h) (put_component m entry key cm ord x d') w)
      \<and> ?I (put_component m entry key cm ord x d')" by simp
  qed
  have uf: "update_field S m entry key attr val d
              = fold (\<lambda>(ord, x). put_component m entry key cm ord x) (field_items attr val) d1"
    using nd cm(1) by (simp add: update_field_def item_model_def item_data_def d1_def del_def)
  show ?thesis
  proof (cases "repeatable attr")
    case True
    with v nd have vr: "validateRepeatableInput val key attr = Inr ()"
      by (simp add: validate_field_def val_def)
    then obtain vs where vs: "val = JArr vs" using validate_repeatable_items by blast
    let ?f = "\<lambda>(idx, x). updateOrCreateComponentAndLink cq m entry (Some h) (Some cm) key x (idx + 1)"
    let ?g = "\<lambda>(idx, x). put_component m entry key cm (idx + 1) x"
    have step: "\<And>x d'. x \<in> set (enumerate 0 vs) \<Longrightarrow> ?I d' \<Longrightarrow>
        ?f x (set_view (Some h) d' w) = (Inr (), set_view (Some h) (?g x d') w) \<and> ?I (?g x d')"
    proof -
      fix x d' assume xin: "x \<in> set (enumerate 0 vs)" and I: "?I d'"
      obtain idx y where x1: "x = (idx, y)" by (cases x)
      have "y \<in> set (component_items val)"
        using xin in_enumerate_set[of idx y 0 vs] by (simp add: x1 vs component_items_def)
      from put[OF this I, of "idx + 1"]
      show "?f x (set_view (Some h) d' w) = (Inr (), set_view (Some h) (?g x d') w) \<and> ?I (?g x d')"
        by (simp add: x1)
    qed
    have fe: "for_each ?f (enumerate 0 vs) (set_view (Some h) d1 w)
                = (Inr (), set_view (Some h) (fold ?g (enumerate 0 vs) d1) w)"
      by (rule for_each_fold_inv[where I = ?I and f = ?f and g = ?g, OF step I1])
    have fi: "fold (\<lambda>(ord, x). put_component m entry key cm ord x) (field_items attr val) d1
                = fold ?g (enumerate 0 vs) d1"
      using True by (simp add: field_items_def vs fold_map comp_def case_prod_unfold)
    have "updateComponents_key cq S m entry vals (Some h) key (set_view (Some h) d w)
            = for_each ?f (enumerate 0 vs) (set_view (Some h) d1 w)"
      using a cm(1) hk True vr vs dl
      by (simp add: updateComponents_key_def val_def[symmetric] Let_def io_bind_def)
    then show ?thesis
      unfolding cq_def[symmetric] val_def[symmetric] uf fi fe .
  next
    case False
    with v nd have vr: "validateNonRepeatableInput val key attr = Inr ()"
      by (simp add: validate_field_def val_def)
    have fi: "fold (\<lambda>(ord, x). put_component m entry key cm ord x) (field_items attr val) d1
                = (if val = JNull then d1 else put_component m entry key cm 1 val d1)"
      using False a(2) by (simp add: field_items_def)
    have p1: "val \<noteq> JNull \<Longrightarrow>
               updateOrCreateComponentAndLink cq m entry (Some h) (Some cm) key val 1 (set_view (Some h) d1 w)
                 = (Inr (), set_view (Some h) (put_component m entry key cm 1 val d1) w)"
    proof -
      assume "val \<noteq> JNull"
      with vr have "is_plain_object val" using validate_nonrepeatable_value by blast
      then have "val \<in> set (component_items val)"
        by (cases val) (auto simp: component_items_def is_plain_object_def)
      from put[OF this I1, of 1] show ?thesis by simp
    qed
    have "updateComponents_key cq S m entry vals (Some h) key (set_view (Some h) d w)
            = (if val = JNull then io_return ()
               else updateOrCreateComponentAndLink cq m entry (Some h) (Some cm) key val 1) (set_view (Some h) d1 w)"
      using a cm(1) hk False vr dl
      by (simp add: updateComponents_key_def val_def[symmetric] Let_def io_bind_def)
    then show ?thesis
      unfolding cq_def[symmetric] val_def[symmetric] uf fi using p1 by simp
  qed
qed

lemma set_ids_to_delete:
  "set (ids_to_delete m entry key v d)
     = set (existing_ids m entry key d) - set (supplied_ids (component_items v))"
  by (auto simp: ids_to_delete_def)

lemma put_component_with_id:
  assumes "has_key x (primaryKey cm)"
  shows "rows (put_component m entry key cm ord x d)
           = map (\<lambda>r. if tbl r = collectionName cm \<and> rid r = item_id cm x
                        then r\<lparr>cols := patch (cols r) (selectAttributes cm x)\<rparr> else r) (rows d)"
    and "joins (put_component m entry key cm ord x d)
           = map (\<lambda>j. if jtbl j = joinTable m \<and> fk j = rid entry \<and> component_type j = collectionName cm
                          \<and> component_id j = item_id cm x \<and> field j = key
                        then j\<lparr>order := ord\<rparr> else j) (joins d)"
  using assms by (simp_all add: put_component_def reorder_link_def patch_component_def)

lemma put_component_without_id:
  assumes "\<not> has_key x (primaryKey cm)"
  shows "rows (put_component m entry key cm ord x d)
           = rows d @ [\<lparr>tbl = collectionName cm, rid = seq d (collectionName cm),
                         cols = selectAttributes cm x\<rparr>]"
    and "joins (put_component m entry key cm ord x d)
           = joins d @ [\<lparr>jtbl = joinTable m, fk = rid entry, component_type = collectionName cm,
                          component_id = seq d (collectionName cm), field = key, order = ord\<rparr>]"
  using assms
  by (simp_all add: put_component_def add_component_def link_component_def insert_component_def)

lemma field_items_component_items:
  assumes "atype attr = ''component''" "validate_field v key attr = Inr ()"
  shows "snd ` set (field_items attr v) \<subseteq> set (component_items v)"
proof (cases "repeatable attr")
  case True
  with assms have "validateRepeatableInput v key attr = Inr ()"
    by (simp add: validate_field_def)
  then obtain vs where "v = JArr vs"
    using validate_repeatable_items by blast
  then show ?thesis using True assms(1)
    by (auto simp: field_items_def component_items_def dest: in_enumerate_set)
next
  case False
  with assms have "validateNonRepeatableInput v key attr = Inr ()"
    by (simp add: validate_field_def)
  then have "v = JNull \<or> is_plain_object v" by (rule validate_nonrepeatable_value)
  then show ?thesis using False assms(1)
    by (cases v) (auto simp: field_items_def component_items_def is_plain_object_def)
qed

lemma supplied_records_after_delete:
  assumes fl: "flat cm"
    and keep: "ids_to_keep ''id'' (component_items v) = Inr keep"
    and sub: "set keep \<subseteq> set (existing_ids m entry key d)"
    and con: "field_consistent m entry key cm d"
    and x: "x \<in> set (component_items v)" "has_key x ''id''"
  shows "(\<exists>r \<in> set (rows (delete_old m entry key cm (ids_to_delete m entry key v d) d)).
            tbl r = collectionName cm \<and> rid r = item_id cm x)
       \<and> (\<exists>j \<in> set (joins (delete_old m entry key cm (ids_to_delete m entry key v d) d)).
            jtbl j = joinTable m \<and> fk j = rid entry \<and> component_type j = collectionName cm
            \<and> component_id j = item_id cm x \<and> field j = key)"
proof -
  let ?s = "to_text (get_prop x ''id'')"
  let ?del = "ids_to_delete m entry key v d"
  from ids_to_keep_readable[OF keep x] have s: "js_toString (get_prop x ''id'') = Some ?s" "?s \<in> set keep"
    by simp_all
  with sub have "?s \<in> set (existing_ids m entry key d)" by blast
  then obtain j where j: "j \<in> set (joined m entry key d)" "?s = show_nat (component_id j)"
    by (auto simp: existing_ids_def)
  have id: "item_id cm x = component_id j"
    using fl j(2) by (simp add: item_id_def flat_def read_show_nat)
  from con j(1) obtain r where r: "component_type j = collectionName cm"
    "r \<in> set (table_rows (collectionName cm) d)" "rid r = component_id j"
    by (auto simp: field_consistent_def list_all_iff list_ex_iff)
  have nd: "?s \<notin> set ?del"
    using s(2) ids_to_keep_supplied[OF keep] by (simp add: ids_to_delete_def)
  have "r \<in> set (rows (delete_old m entry key cm ?del d))"
    using r(2,3) nd j(2) by (simp add: rows_delete_old in_table_rows)
  moreover have "j \<in> set (joins (delete_old m entry key cm ?del d))"
    using j nd by (simp add: joins_delete_old joined_def)
  ultimately show ?thesis
    using r j(1) id by (auto simp: in_table_rows joined_def)
qed

lemma keep_has_known:
  "keep_has keep (i, Some c) = Inr (list_ex (\<lambda>k. fst k = i \<and> uid (snd k) = uid c) keep)"
  by (induction keep) auto

lemma dz_ids_to_delete_known:
  "dz_ids_to_delete keep (map (\<lambda>a. (fst a, Some (snd a))) ex)
     = Inr (map (\<lambda>a. (fst a, Some (snd a)))
              (filter (\<lambda>a. \<not> list_ex (\<lambda>k. fst k = fst a \<and> uid (snd k) = uid (snd a)) keep) ex))"
  by (induction ex) (auto simp: keep_has_known)

lemma known_components_known:
  "known_components (map (\<lambda>a. (fst a, Some (snd a))) xs) = Inr xs"
  by (induction xs) auto

lemma dz_verify_ok:
  assumes "\<forall>k \<in> set keep. \<exists>a \<in> set ex. fst a = fst k \<and> uid (snd a) = uid (snd k)"
  shows "dz_verify key (map (\<lambda>a. (fst a, Some (snd a))) ex) keep = Inr ()"
  using assms
proof (induction keep)
  case Nil
  show ?case by simp
next
  case (Cons k ks)
  have "all_has (map (\<lambda>a. (fst a, Some (snd a))) ex) k = Inr True"
    using Cons.prems by (subst all_has_known) auto
  with Cons show ?case by simp
qed

lemma dz_ids_to_keep_readable:
  assumes "\<forall>x \<in> set vs. \<exists>cm. component_model S (get_prop x ''__component'') = Some cm \<and> primaryKey cm = ''id''"
    and "dz_ids_to_keep S vs = Inr keep"
  shows "keep = dz_supplied S vs
       \<and> (\<forall>x \<in> set vs. has_key x ''id'' \<longrightarrow>
            js_toString (get_prop x ''id'') = Some (to_text (get_prop x ''id'')))"
  using assms
proof (induction vs arbitrary: keep)
  case Nil
  then show ?case by (simp add: dz_supplied_def)
next
  case (Cons x xs)
  from Cons.prems(1) obtain cm where cm: "component_model S (get_prop x ''__component'') = Some cm"
    "primaryKey cm = ''id''" by auto
  from Cons.prems(1) have rest: "\<forall>x \<in> set xs. \<exists>cm. component_model S (get_prop x ''__component'') = Some cm \<and> primaryKey cm = ''id''"
    by simp
  show ?case
  proof (cases "has_key x ''id''")
    case True
    with Cons.prems(2) cm obtain s ss where s: "js_toString (get_prop x ''id'') = Some s"
      "dz_ids_to_keep S xs = Inr ss" "keep = (s, cm) # ss"
      by (auto split: option.splits sum.splits)
    from Cons.IH[OF rest s(2)] s cm True js_toString_to_text[OF s(1)] show ?thesis
      by (simp add: dz_supplied_def)
  next
    case False
    with Cons.prems(2) cm have "dz_ids_to_keep S xs = Inr keep" by simp
    from Cons.IH[OF rest this] False show ?thesis by (simp add: dz_supplied_def)
  qed
qed

lemma truthy_show_nat: "truthy (JStr (show_nat i))"
proof -
  have "show_nat i \<noteq> []" by (subst show_nat.simps) simp
  then show ?thesis by (simp add: truthy_def)
qed

lemma deleteMany_pk_flat:
  assumes fl: "flat c"
  shows "\<exists>js. deleteMany cq S c [(''id'', JStr (show_nat i))] (Some h) (set_view (Some h) d w)
           = (Inr js, set_view (Some h)
                (if list_ex (\<lambda>r. show_nat (rid r) = show_nat i) (table_rows (collectionName c) d)
                 then remove_component c (read_nat (show_nat i)) d else d) w)"
proof -
  have pk: "primaryKey c = ''id''" using fl by (simp add: flat_def)
  let ?ps = "(''_limit'', JNum 1) # [(''id'', JStr (show_nat i))]"
  have fm: "filter_matches ?ps = (\<lambda>r. rid r = i)"
    by (rule ext) (simp add: filter_matches_def is_in_key_def)
  have tr: "truthy (get_prop (JObj [(''id'', JStr (show_nat i))]) ''id'')"
    by (simp add: get_prop_def truthy_show_nat)
  have al: "\<And>xs :: row list. apply_limit ?ps xs = take 1 xs"
    by (simp add: apply_limit_def)
  show ?thesis
  proof (cases "filter (\<lambda>r. rid r = i) (table_rows (collectionName c) d)")
    case Nil
    then have "\<not> list_ex (\<lambda>r. show_nat (rid r) = show_nat i) (table_rows (collectionName c) d)"
      by (auto simp: list_ex_iff filter_empty_conv)
    then show ?thesis using Nil tr
      by (simp add: deleteMany_def pk io_bind_def find_entries_at fm al)
  next
    case (Cons y ys)
    then have y: "y \<in> set (table_rows (collectionName c) d)" "rid y = i"
      using filter_hd_in[OF Cons] by simp_all
    then have ex: "\<exists>r \<in> set (table_rows (collectionName c) d). rid r = i" by blast
    then have le: "list_ex (\<lambda>r. show_nat (rid r) = show_nat i) (table_rows (collectionName c) d)"
      by (auto simp: list_ex_iff)
    from deleteOne_flat[OF fl ex, of cq S h w] obtain js where
      js: "deleteOne cq S c (JNum (int i)) (Some h) (set_view (Some h) d w)
             = (Inr js, set_view (Some h) (remove_component c i d) w)" by blast
    have "deleteMany cq S c [(''id'', JStr (show_nat i))] (Some h) (set_view (Some h) d w)
            = deleteOne cq S c (JNum (int i)) (Some h) (set_view (Some h) d w)"
      using tr Cons y(2)
      by (simp add: deleteMany_def pk io_bind_def find_entries_at fm al)
    with js le show ?thesis by (simp add: read_show_nat)
  qed
qed

lemma deleteDynamicZoneOldComponents_flat:
  assumes models: "\<forall>x \<in> set vs. \<exists>cm. component_model S (get_prop x ''__component'') = Some cm \<and> flat cm"
    and keep: "dz_ids_to_keep S vs = Inr keep"
    and known: "\<forall>j \<in> set (joined m entry key d). \<exists>c. component_of_type S (component_type j) = Some c \<and> flat c"
    and sub: "\<forall>k \<in> set keep. \<exists>a \<in> set (dz_existing S m entry key d). fst a = fst k \<and> uid (snd a) = uid (snd k)"
  shows "deleteDynamicZoneOldComponents (strapi_query S (Suc n)) S m entry (JArr vs) key (Some h)
           (set_view (Some h) d w)
         = (Inr (), set_view (Some h) (dz_delete_old m entry key (dz_to_delete S m entry key (JArr vs) d) d) w)"
proof -
  define ex where "ex = dz_existing S m entry key d"
  define dels where "dels = dz_to_delete S m entry key (JArr vs) d"
  define cq where "cq = strapi_query S (Suc n)"
  have pk: "\<forall>x \<in> set vs. \<exists>cm. component_model S (get_prop x ''__component'') = Some cm \<and> primaryKey cm = ''id''"
    using models by (auto simp: flat_def)
  have ks: "keep = dz_supplied S vs" using dz_ids_to_keep_readable[OF pk keep] by simp
  have all: "map (\<lambda>el. (show_nat (component_id el), component_of_type S (component_type el)))
               (joined m entry key d) = map (\<lambda>a. (fst a, Some (snd a))) ex"
    using known by (auto simp: ex_def dz_existing_def)
  have dd: "dels = filter (\<lambda>a. \<not> list_ex (\<lambda>k. fst k = fst a \<and> uid (snd k) = uid (snd a)) keep) ex"
    by (simp add: dels_def dz_to_delete_def ks ex_def)
  have ver: "dz_verify key (map (\<lambda>a. (fst a, Some (snd a))) ex) keep = Inr ()"
    by (rule dz_verify_ok) (use sub in \<open>simp add: ex_def\<close>)
  have del: "dz_ids_to_delete keep (map (\<lambda>a. (fst a, Some (snd a))) ex)
               = Inr (map (\<lambda>a. (fst a, Some (snd a))) dels)"
    by (simp add: dz_ids_to_delete_known dd)
  let ?cond = "\<lambda>j. field j = key \<and> list_ex (\<lambda>(i, c). show_nat (component_id j) = i
                                             \<and> component_type j = collectionName c) dels"
  let ?d0 = "d\<lparr>joins := filter (\<lambda>j. \<not> (jtbl j = joinTable m \<and> ?cond j)) (joins d)\<rparr>"
  let ?f = "\<lambda>(i, c). io_bind (q_delete cq c [(primaryKey c, JStr i)] (Some h)) (\<lambda>_. io_return ())"
  let ?g = "\<lambda>(i, c) d'. if list_ex (\<lambda>r. show_nat (rid r) = i) (table_rows (collectionName c) d')
                           then remove_component c (read_nat i) d' else d'"
  have step: "\<And>x d'. x \<in> set dels \<Longrightarrow> ?f x (set_view (Some h) d' w) = (Inr (), set_view (Some h) (?g x d') w)"
  proof -
    fix x d' assume xin: "x \<in> set dels"
    obtain i c where x: "x = (i, c)" by (cases x)
    from xin have "x \<in> set ex" by (simp add: dd)
    then obtain j where j: "j \<in> set (joined m entry key d)" "i = show_nat (component_id j)"
      "c = the (component_of_type S (component_type j))"
      by (auto simp: ex_def dz_existing_def x)
    from known j(1,3) have fl: "flat c" by auto
    then have pkc: "primaryKey c = ''id''" by (simp add: flat_def)
    from deleteMany_pk_flat[OF fl, of "strapi_query S n" S "component_id j" h d' w]
    obtain js where "deleteMany (strapi_query S n) S c [(''id'', JStr i)] (Some h) (set_view (Some h) d' w)
           = (Inr js, set_view (Some h) (?g x d') w)"
      by (auto simp: j(2) x)
    then show "?f x (set_view (Some h) d' w) = (Inr (), set_view (Some h) (?g x d') w)"
      by (simp add: x cq_def pkc io_bind_def)
  qed
  have fe: "for_each ?f dels (set_view (Some h) ?d0 w) = (Inr (), set_view (Some h) (fold ?g dels ?d0) w)"
    by (rule for_each_fold[where f = ?f and g = ?g, OF step])
  show ?thesis
  proof (cases "dels = []")
    case True
    then show ?thesis
      unfolding cq_def[symmetric] dels_def[symmetric]
      using keep ver del
      by (simp add: deleteDynamicZoneOldComponents_def io_bind_def join_fetchAll_at all
            dz_delete_old_def)
  next
    case False
    have "deleteDynamicZoneOldComponents cq S m entry (JArr vs) key (Some h) (set_view (Some h) d w)
            = for_each ?f dels (set_view (Some h) ?d0 w)"
      using keep ver del False
      by (simp add: deleteDynamicZoneOldComponents_def io_bind_def join_fetchAll_at all
            known_components_known join_query_destroy_at)
    with fe False show ?thesis
      unfolding cq_def[symmetric] dels_def[symmetric]
      by (simp add: dz_delete_old_def)
  qed
qed

lemma map_of_omit: "map_of (filter (\<lambda>(k', x). k' \<noteq> c) kv) k = (if k = c then None else map_of kv k)"
  by (induction kv) auto

lemma has_key_omit: "k \<noteq> c \<Longrightarrow> has_key (omit (JObj kv) c) k \<longleftrightarrow> has_key (JObj kv) k"
  by (auto simp: has_key_def omit_def props_of_def)

lemma get_prop_omit: "k \<noteq> c \<Longrightarrow> get_prop (omit (JObj kv) c) k = get_prop (JObj kv) k"
  by (simp add: get_prop_def omit_def props_of_def map_of_omit)

lemma registry_member:
  assumes "registry_flat S" "map_of (strapi_components S) k = Some c"
  shows "(k, c) \<in> set (strapi_components S)" "uid c = k" "flat c"
proof -
  from assms(2) show m: "(k, c) \<in> set (strapi_components S)" by (rule map_of_SomeD)
  with assms(1) show "uid c = k" "flat c" by (auto simp: registry_flat_def list_all_iff)
qed

lemma component_of_type_member:
  assumes rf: "registry_flat S" and c: "component_of_type S ct = Some c"
  shows "collectionName c = ct" "map_of (strapi_components S) (uid c) = Some c"
proof -
  from c obtain k c' where f: "List.find (\<lambda>(k, c). collectionName c = ct) (strapi_components S) = Some (k, c')"
    "map_of (strapi_components S) k = Some c"
    by (auto simp: component_of_type_def split: option.splits)
  from f(1) have 1: "(k, c') \<in> set (strapi_components S)" "collectionName c' = ct"
    by (auto simp: find_Some_iff dest: nth_mem)
  from rf have "distinct (map fst (strapi_components S))" by (simp add: registry_flat_def)
  with 1(1) have "map_of (strapi_components S) k = Some c'" by simp
  with f(2) have "c' = c" by simp
  with 1 show "collectionName c = ct" by simp
  from registry_member[OF rf f(2)] f(2) show "map_of (strapi_components S) (uid c) = Some c" by simp
qed

lemma registry_same_uid:
  assumes "map_of (strapi_components S) (uid a) = Some a" "map_of (strapi_components S) (uid b) = Some b"
    "uid a = uid b"
  shows "a = b"
  using assms by (metis option.inject)

lemma registry_same_collection:
  assumes rf: "registry_flat S"
    and a: "map_of (strapi_components S) ka = Some a" and b: "map_of (strapi_components S) kb = Some b"
    and eq: "collectionName a = collectionName b"
  shows "a = b"
proof -
  from rf have d: "distinct (map (\<lambda>(k, c). collectionName c) (strapi_components S))"
    by (simp add: registry_flat_def)
  have ia: "(ka, a) \<in> set (strapi_components S)" and ib: "(kb, b) \<in> set (strapi_components S)"
    using a b by (auto dest: map_of_SomeD)
  from d have "inj_on (\<lambda>(k, c). collectionName c) (set (strapi_components S))"
    by (simp add: distinct_map)
  from inj_onD[OF this _ ia ib] eq show ?thesis by simp
qed

lemma filter_id_conv: "(\<forall>x \<in> set xs. P x) \<Longrightarrow> filter P xs = xs"
  by (induction xs) auto

lemma rows_fold_dz_delete:
  assumes "\<forall>a \<in> set dels. \<exists>k. fst a = show_nat k"
  shows "rows (fold (\<lambda>(i, c) d'. if list_ex (\<lambda>r. show_nat (rid r) = i) (table_rows (collectionName c) d')
                               then remove_component c (read_nat i) d' else d') dels d)
         = filter (\<lambda>r. \<not> list_ex (\<lambda>(i, c). tbl r = collectionName c \<and> show_nat (rid r) = i) dels) (rows d)"
  using assms
proof (induction dels arbitrary: d)
  case Nil
  show ?case by simp
next
  case (Cons a dels)
  obtain i c where a: "a = (i, c)" by (cases a)
  from Cons.prems obtain k where k: "i = show_nat k" by (auto simp: a)
  let ?g = "\<lambda>(i, c) d'. if list_ex (\<lambda>r. show_nat (rid r) = i) (table_rows (collectionName c) d')
                               then remove_component c (read_nat i) d' else d'"
  have 1: "rows (?g a d) = filter (\<lambda>r. \<not> (tbl r = collectionName c \<and> show_nat (rid r) = i)) (rows d)"
  proof (cases "list_ex (\<lambda>r. show_nat (rid r) = i) (table_rows (collectionName c) d)")
    case True
    then show ?thesis by (simp add: a remove_component_def k read_show_nat)
  next
    case False
    then have "\<forall>r \<in> set (rows d). \<not> (tbl r = collectionName c \<and> show_nat (rid r) = i)"
      by (auto simp: list_ex_iff in_table_rows)
    then have "filter (\<lambda>r. \<not> (tbl r = collectionName c \<and> show_nat (rid r) = i)) (rows d) = rows d"
      by (rule filter_id_conv)
    with False show ?thesis by (simp add: a)
  qed
  from Cons.prems have "\<forall>a \<in> set dels. \<exists>k. fst a = show_nat k" by simp
  from Cons.IH[OF this, of "?g a d"] 1 show ?case
    by (simp add: a)
qed

lemma joins_fold_dz_delete [simp]:
  "joins (fold (\<lambda>(i, c) d'. if list_ex (\<lambda>r. show_nat (rid r) = i) (table_rows (collectionName c) d')
                               then remove_component c (read_nat i) d' else d') dels d) = joins d"
  by (induction dels arbitrary: d) (auto simp: remove_component_def)

lemma rows_dz_delete_old:
  assumes "\<forall>a \<in> set dels. \<exists>k. fst a = show_nat k"
  shows "rows (dz_delete_old m entry key dels d)
         = filter (\<lambda>r. \<not> list_ex (\<lambda>(i, c). tbl r = collectionName c \<and> show_nat (rid r) = i) dels) (rows d)"
proof (cases "dels = []")
  case True
  then show ?thesis by (simp add: dz_delete_old_def)
next
  case False
  then show ?thesis by (simp add: dz_delete_old_def rows_fold_dz_delete[OF assms])
qed

lemma joins_dz_delete_old:
  "joins (dz_delete_old m entry key dels d)
     = filter (\<lambda>j. \<not> (jtbl j = joinTable m \<and> field j = key
                      \<and> list_ex (\<lambda>(i, c). show_nat (component_id j) = i
                                         \<and> component_type j = collectionName c) dels)) (joins d)"
  by (cases "dels = []") (simp_all add: dz_delete_old_def)

lemma dz_to_delete_shown: "\<forall>a \<in> set (dz_to_delete S m entry key v d). \<exists>k. fst a = show_nat k"
  by (auto simp: dz_to_delete_def dz_existing_def)

lemma dz_supplied_records_after_delete:
  assumes rf: "registry_flat S"
    and models: "\<forall>x \<in> set vs. \<exists>c cm. get_prop x ''__component'' = JStr c
                    \<and> map_of (strapi_components S) c = Some cm"
    and keep: "dz_ids_to_keep S vs = Inr keep"
    and sub: "\<forall>k \<in> set keep. \<exists>a \<in> set (dz_existing S m entry key d). fst a = fst k \<and> uid (snd a) = uid (snd k)"
    and con: "dz_consistent S m entry key d"
    and x: "x \<in> set vs" "has_key x ''id''"
    and cmx: "component_model S (get_prop x ''__component'') = Some cm"
  shows "\<exists>i. js_toString (get_prop x ''id'') = Some (show_nat i)
           \<and> (\<exists>r \<in> set (table_rows (collectionName cm)
                          (dz_delete_old m entry key (dz_to_delete S m entry key (JArr vs) d) d)). rid r = i)
           \<and> (\<exists>j \<in> set (joins (dz_delete_old m entry key (dz_to_delete S m entry key (JArr vs) d) d)).
                 jtbl j = joinTable m \<and> fk j = rid entry \<and> component_type j = collectionName cm
                 \<and> component_id j = i \<and> field j = key)"
proof -
  define dels where "dels = dz_to_delete S m entry key (JArr vs) d"
  let ?s = "to_text (get_prop x ''id'')"
  have pk: "\<forall>x \<in> set vs. \<exists>cm. component_model S (get_prop x ''__component'') = Some cm \<and> primaryKey cm = ''id''"
  proof
    fix y assume "y \<in> set vs"
    with models obtain c cm' where c: "get_prop y ''__component'' = JStr c"
      "map_of (strapi_components S) c = Some cm'" by blast
    from registry_member(3)[OF rf c(2)] c
    show "\<exists>cm. component_model S (get_prop y ''__component'') = Some cm \<and> primaryKey cm = ''id''"
      by (simp add: flat_def)
  qed
  from dz_ids_to_keep_readable[OF pk keep] x
  have ks: "keep = dz_supplied S vs" and s: "js_toString (get_prop x ''id'') = Some ?s" by simp_all
  have inkeep: "(?s, cm) \<in> set keep"
    using x cmx by (auto simp: ks dz_supplied_def intro!: image_eqI[where x = x])
  from models x(1) cmx obtain cn where cn: "map_of (strapi_components S) cn = Some cm"
    by (auto simp: component_model_def template_text_def)
  from registry_member(2)[OF rf cn] cn have rcm: "map_of (strapi_components S) (uid cm) = Some cm" by simp
  from sub inkeep obtain a where a: "a \<in> set (dz_existing S m entry key d)" "fst a = ?s" "uid (snd a) = uid cm"
    by force
  then obtain j where j: "j \<in> set (joined m entry key d)" "?s = show_nat (component_id j)"
    "snd a = the (component_of_type S (component_type j))"
    by (auto simp: dz_existing_def)
  from con j(1) obtain c r where c: "component_of_type S (component_type j) = Some c"
    and r: "r \<in> set (table_rows (collectionName c) d)" "rid r = component_id j"
    by (auto simp: dz_consistent_def list_all_iff list_ex_iff split: option.splits)
  from component_of_type_member[OF rf c] have cc: "collectionName c = component_type j"
    "map_of (strapi_components S) (uid c) = Some c" by simp_all
  have "uid c = uid cm" using a(3) j(3) c by simp
  from registry_same_uid[OF cc(2) rcm this] have ceq: "c = cm" .
  have nodel: "\<not> (\<exists>c'. (?s, c') \<in> set dels \<and> collectionName c' = collectionName cm)"
  proof
    assume "\<exists>c'. (?s, c') \<in> set dels \<and> collectionName c' = collectionName cm"
    then obtain c' where d: "(?s, c') \<in> set dels" and e: "collectionName c' = collectionName cm" by blast
    define i where "i = ?s"
    note d = d[folded i_def]
    have i: "i = ?s" by (simp add: i_def)
    from d have ex: "(i, c') \<in> set (dz_existing S m entry key d)"
      and nk: "\<not> list_ex (\<lambda>k. fst k = i \<and> uid (snd k) = uid c') (dz_supplied S vs)"
      by (simp_all add: dels_def dz_to_delete_def)
    from ex obtain j' where j': "j' \<in> set (joined m entry key d)"
      "c' = the (component_of_type S (component_type j'))"
      by (auto simp: dz_existing_def)
    from con j'(1) obtain c2 where "component_of_type S (component_type j') = Some c2"
      by (auto simp: dz_consistent_def list_all_iff split: option.splits)
    with j'(2) have "component_of_type S (component_type j') = Some c'" by simp
    from component_of_type_member(2)[OF rf this] have "map_of (strapi_components S) (uid c') = Some c'" .
    from registry_same_collection[OF rf this rcm e] have "c' = cm" .
    with nk inkeep i show False by (auto simp: ks list_ex_iff)
  qed
  have sh: "\<forall>a \<in> set dels. \<exists>k. fst a = show_nat k"
    unfolding dels_def by (rule dz_to_delete_shown)
  have tr: "tbl r = collectionName cm" "r \<in> set (rows d)" "show_nat (rid r) = ?s"
    using r ceq j(2) by (simp_all add: in_table_rows)
  have "\<not> list_ex (\<lambda>(i, c). tbl r = collectionName c \<and> show_nat (rid r) = i) dels"
    using nodel unfolding tr(1,3) list_ex_iff by fastforce
  then have "r \<in> set (rows (dz_delete_old m entry key dels d))"
    using tr(2) by (simp add: rows_dz_delete_old[OF sh])
  then have 1: "r \<in> set (table_rows (collectionName cm) (dz_delete_old m entry key dels d))"
    using r(1) ceq by (simp add: in_table_rows)
  have tj: "component_type j = collectionName cm" "j \<in> set (joins d)" "show_nat (component_id j) = ?s"
    using j(1,2) cc(1) ceq by (simp_all add: joined_def)
  have "\<not> list_ex (\<lambda>(i, c). show_nat (component_id j) = i \<and> component_type j = collectionName c) dels"
    using nodel unfolding tj(1,3) list_ex_iff by fastforce
  then have "j \<in> set (joins (dz_delete_old m entry key dels d))"
    using tj(2) by (simp add: joins_dz_delete_old)
  with 1 r(2) j(1,2) s cc(1) ceq show ?thesis
    unfolding dels_def[symmetric]
    by (auto simp: joined_def)
qed

lemma consistent_known:
  assumes rf: "registry_flat S" and con: "dz_consistent S m entry key d"
  shows "\<forall>j \<in> set (joined m entry key d). \<exists>c. component_of_type S (component_type j) = Some c \<and> flat c"
proof
  fix j assume "j \<in> set (joined m entry key d)"
  with con obtain c where c: "component_of_type S (component_type j) = Some c"
    by (auto simp: dz_consistent_def list_all_iff split: option.splits)
  from registry_member(3)[OF rf component_of_type_member(2)[OF rf c]] c
  show "\<exists>c. component_of_type S (component_type j) = Some c \<and> flat c" by simp
qed

lemma updateComponents_key_dynamiczone_valid:
  assumes a: "map_of (attributes m) key = Some attr" "atype attr = ''dynamiczone''"
    and rf: "registry_flat S" and fm: "field_models_flat S attr"
    and hk: "has_key vals key"
    and v: "validate_field (get_prop vals key) key attr = Inr ()"
    and rel: "supplied_related S m entry key attr (get_prop vals key) d"
    and con: "store_consistent S m entry key attr d"
  shows "updateComponents_key (strapi_query S (Suc n)) S m entry vals (Some h) key (set_view (Some h) d w)
         = (Inr (), set_view (Some h) (update_field S m entry key attr (get_prop vals key) d) w)"
proof -
  define val where "val = get_prop vals key"
  define cq where "cq = strapi_query S (Suc n)"
  from v a(2) have vd: "validateDynamiczoneInput val key attr = Inr ()"
    by (simp add: validate_field_def val_def)
  from validateDynamiczoneInput_Inr[OF vd] obtain vs where vs: "val = JArr vs"
    and items: "\<forall>x \<in> set vs. \<exists>kv c. x = JObj kv \<and> map_of kv ''__component'' = Some (JStr c) \<and> c \<in> set (components attr)"
    by blast
  define d1 where "d1 = dz_delete_old m entry key (dz_to_delete S m entry key (JArr vs) d) d"
  have dzc: "dz_consistent S m entry key d" using con a(2) by (simp add: store_consistent_def)
  have mo: "\<forall>x \<in> set vs. \<exists>cm. component_model S (get_prop x ''__component'') = Some cm \<and> flat cm"
    using dz_item_model[OF vd[unfolded vs] _ a(2) fm] by blast
  have mo2: "\<forall>x \<in> set vs. \<exists>c cm. get_prop x ''__component'' = JStr c \<and> map_of (strapi_components S) c = Some cm"
  proof
    fix x assume x: "x \<in> set vs"
    with items obtain kv c where k: "x = JObj kv" "map_of kv ''__component'' = Some (JStr c)" by blast
    from mo x obtain cm where "component_model S (get_prop x ''__component'') = Some cm" by blast
    with k show "\<exists>c cm. get_prop x ''__component'' = JStr c \<and> map_of (strapi_components S) c = Some cm"
      by (simp add: get_prop_def)
  qed
  from rel a(2) obtain keep where keep: "dz_ids_to_keep S vs = Inr keep"
    and sub: "\<forall>k \<in> set keep. \<exists>a \<in> set (dz_existing S m entry key d). fst a = fst k \<and> uid (snd a) = uid (snd k)"
    by (auto simp: supplied_related_def val_def[symmetric] vs list_all_iff list_ex_iff split: sum.splits)
  have dl: "deleteDynamicZoneOldComponents cq S m entry (JArr vs) key (Some h) (set_view (Some h) d w)
              = (Inr (), set_view (Some h) d1 w)"
    unfolding cq_def d1_def
    by (rule deleteDynamicZoneOldComponents_flat[OF mo keep consistent_known[OF rf dzc] sub])
  let ?cm = "\<lambda>x. the (component_model S (get_prop x ''__component''))"
  let ?I = "\<lambda>d'. \<forall>x \<in> set vs. has_key x ''id'' \<longrightarrow>
              (\<exists>i. js_toString (get_prop x ''id'') = Some (show_nat i)
                 \<and> (\<exists>r \<in> set (table_rows (collectionName (?cm x)) d'). rid r = i))"
  have I1: "?I d1"
  proof (intro ballI impI)
    fix x assume x: "x \<in> set vs" "has_key x ''id''"
    from mo x(1) obtain cm where cm: "component_model S (get_prop x ''__component'') = Some cm" by blast
    from dz_supplied_records_after_delete[OF rf mo2 keep sub dzc x cm] cm
    show "\<exists>i. js_toString (get_prop x ''id'') = Some (show_nat i)
                 \<and> (\<exists>r \<in> set (table_rows (collectionName (?cm x)) d1). rid r = i)"
      unfolding d1_def by auto
  qed
  let ?f = "\<lambda>(idx, x). updateOrCreateComponentAndLink cq m entry (Some h)
                          (component_model S (get_prop x ''__component'')) key (omit x ''__component'') (idx + 1)"
  let ?g = "\<lambda>(idx, x). put_component m entry key (?cm x) (idx + 1) (omit x ''__component'')"
  have step: "\<And>p d'. p \<in> set (enumerate 0 vs) \<Longrightarrow> ?I d' \<Longrightarrow>
      ?f p (set_view (Some h) d' w) = (Inr (), set_view (Some h) (?g p d') w) \<and> ?I (?g p d')"
  proof -
    fix p d' assume pin: "p \<in> set (enumerate 0 vs)" and I: "?I d'"
    obtain idx x where p: "p = (idx, x)" by (cases p)
    have x: "x \<in> set vs" using pin in_enumerate_set[of idx x 0 vs] by (simp add: p)
    from items x obtain kv where kv: "x = JObj kv" by blast
    from mo x obtain cm where cm: "component_model S (get_prop x ''__component'') = Some cm" "flat cm" by blast
    have hk': "has_key (omit x ''__component'') ''id'' \<longleftrightarrow> has_key x ''id''"
      unfolding kv by (rule has_key_omit) simp
    have gp: "get_prop (omit x ''__component'') ''id'' = get_prop x ''id''"
      unfolding kv by (rule get_prop_omit) simp
    have Ix: "has_key x ''id'' \<Longrightarrow> \<exists>i. js_toString (get_prop x ''id'') = Some (show_nat i)
                 \<and> (\<exists>r \<in> set (table_rows (collectionName cm) d'). rid r = i)"
      using I[rule_format, OF x] cm(1) by simp
    have "updateOrCreateComponentAndLink cq m entry (Some h) (Some cm) key (omit x ''__component'') (idx + 1)
            (set_view (Some h) d' w)
          = (Inr (), set_view (Some h) (put_component m entry key cm (idx + 1) (omit x ''__component'') d') w)"
      unfolding cq_def
      by (rule updateOrCreateComponentAndLink_flat[OF cm(2)]) (use Ix hk' gp in simp)
    moreover have "?I (put_component m entry key cm (idx + 1) (omit x ''__component'') d')"
      using I row_kept_put_component by blast
    ultimately show "?f p (set_view (Some h) d' w) = (Inr (), set_view (Some h) (?g p d') w) \<and> ?I (?g p d')"
      by (simp add: p cm(1))
  qed
  have fe: "for_each ?f (enumerate 0 vs) (set_view (Some h) d1 w)
              = (Inr (), set_view (Some h) (fold ?g (enumerate 0 vs) d1) w)"
    by (rule for_each_fold_inv[where I = ?I and f = ?f and g = ?g, OF step I1])
  have uf: "update_field S m entry key attr val d = fold ?g (enumerate 0 vs) d1"
    using a(2)
    by (simp add: update_field_def item_model_def item_data_def d1_def vs field_items_def fold_map
          comp_def case_prod_unfold)
  have "updateComponents_key cq S m entry vals (Some h) key (set_view (Some h) d w)
          = for_each ?f (enumerate 0 vs) (set_view (Some h) d1 w)"
    using a hk vd vs dl
    by (simp add: updateComponents_key_def val_def[symmetric] Let_def io_bind_def)
  then show ?thesis
    unfolding cq_def[symmetric] val_def[symmetric] uf fe .
qed

lemma updateComponents_key_valid:
  assumes a: "map_of (attributes m) key = Some attr"
    and k: "atype attr = ''component'' \<or> atype attr = ''dynamiczone''"
    and rf: "registry_flat S" and fm: "field_models_flat S attr"
    and hk: "has_key vals key"
    and v: "validate_field (get_prop vals key) key attr = Inr ()"
    and rel: "supplied_related S m entry key attr (get_prop vals key) d"
    and con: "store_consistent S m entry key attr d"
  shows "updateComponents_key (strapi_query S (Suc n)) S m entry vals (Some h) key (set_view (Some h) d w)
         = (Inr (), set_view (Some h) (update_field S m entry key attr (get_prop vals key) d) w)"
proof (cases "atype attr = ''dynamiczone''")
  case True
  from updateComponents_key_dynamiczone_valid[OF a True rf fm hk v rel con] show ?thesis .
next
  case False
  with k have c: "atype attr = ''component''" by simp
  from fm False obtain cm where cm: "map_of (strapi_components S) (component attr) = Some cm" "flat cm"
    by (auto simp: field_models_flat_def split: option.splits)
  from rel False obtain keep where keep: "ids_to_keep ''id'' (component_items (get_prop vals key)) = Inr keep"
    and sub: "set keep \<subseteq> set (existing_ids m entry key d)"
    by (auto simp: supplied_related_def list_all_iff split: sum.splits)
  from con False cm(1) have fc: "field_consistent m entry key cm d"
    by (simp add: store_consistent_def)
  then have di: "distinct (map rid (table_rows (collectionName cm) d))"
    and inst: "\<forall>j \<in> set (joined m entry key d).
                 \<exists>r \<in> set (table_rows (collectionName cm) d). rid r = component_id j"
    by (auto simp: field_consistent_def list_all_iff list_ex_iff)
  from updateComponents_key_component_valid[OF a c cm hk v keep sub di inst] show ?thesis .
qed

lemma fold_put_component_keys:
  "\<exists>R J. map row_key (rows (fold (\<lambda>(ord, x). put_component m entry key (cmf x) ord (df x)) xs d))
            = map row_key (rows d) @ R
        \<and> map join_key (joins (fold (\<lambda>(ord, x). put_component m entry key (cmf x) ord (df x)) xs d))
            = map join_key (joins d) @ J
        \<and> length R = length (filter (\<lambda>(ord, x). \<not> has_key (df x) (primaryKey (cmf x))) xs)
        \<and> length J = length R"
proof (induction xs arbitrary: d)
  case Nil
  show ?case by simp
next
  case (Cons a xs)
  obtain ord x where a: "a = (ord, x)" by (cases a)
  let ?d1 = "put_component m entry key (cmf x) ord (df x) d"
  let ?F = "fold (\<lambda>(ord, x). put_component m entry key (cmf x) ord (df x)) xs ?d1"
  from Cons[of ?d1] obtain R J where
    1: "map row_key (rows ?F) = map row_key (rows ?d1) @ R"
       "map join_key (joins ?F) = map join_key (joins ?d1) @ J"
       "length R = length (filter (\<lambda>(ord, x). \<not> has_key (df x) (primaryKey (cmf x))) xs)"
       "length J = length R"
    by blast
  show ?case
  proof (cases "has_key (df x) (primaryKey (cmf x))")
    case True
    have "map row_key (rows ?d1) = map row_key (rows d)" "map join_key (joins ?d1) = map join_key (joins d)"
      by (simp_all add: put_component_with_id[OF True] row_key_def join_key_def comp_def cong: if_cong)
    with 1 True show ?thesis
      apply (intro exI[of _ R] exI[of _ J]) by (simp add: a)
  next
    case False
    let ?r = "\<lparr>tbl = collectionName (cmf x), rid = seq d (collectionName (cmf x)),
               cols = selectAttributes (cmf x) (df x)\<rparr>"
    let ?j = "\<lparr>jtbl = joinTable m, fk = rid entry, component_type = collectionName (cmf x),
                component_id = seq d (collectionName (cmf x)), field = key, order = ord\<rparr>"
    from 1 False show ?thesis
      apply (intro exI[of _ "row_key ?r # R"] exI[of _ "join_key ?j # J"])
      by (simp add: a put_component_without_id[OF False])
  qed
qed

lemma update_field_old_deleted:
  "update_field S m entry key attr v d
     = fold (\<lambda>(ord, x). put_component m entry key (the (item_model S attr x)) ord (item_data attr x))
         (field_items attr v) (old_deleted S m entry key attr v d)"
  by (simp add: update_field_def old_deleted_def)

lemma field_items_valid:
  assumes k: "atype attr = ''component'' \<or> atype attr = ''dynamiczone''"
    and fm: "field_models_flat S attr"
    and v: "validate_field v key attr = Inr ()"
    and x: "(ord, x) \<in> set (field_items attr v)"
  shows "\<exists>cm. item_model S attr x = Some cm \<and> flat cm"
    and "has_key (item_data attr x) ''id'' \<longleftrightarrow> has_key x ''id''"
    and "get_prop (item_data attr x) ''id'' = get_prop x ''id''"
proof -
  have "(\<exists>cm. item_model S attr x = Some cm \<and> flat cm)
        \<and> (has_key (item_data attr x) ''id'' \<longleftrightarrow> has_key x ''id'')
        \<and> get_prop (item_data attr x) ''id'' = get_prop x ''id''"
  proof (cases "atype attr = ''dynamiczone''")
    case True
    with v have vd: "validateDynamiczoneInput v key attr = Inr ()" by (simp add: validate_field_def)
    from validateDynamiczoneInput_Inr[OF vd] obtain vs where vs: "v = JArr vs"
      and items: "\<forall>x \<in> set vs. \<exists>kv c. x = JObj kv \<and> map_of kv ''__component'' = Some (JStr c) \<and> c \<in> set (components attr)"
      by blast
    from x True have xin: "x \<in> set vs"
      by (auto simp: field_items_def vs dest: in_enumerate_set)
    with items obtain kv where kv: "x = JObj kv" by blast
    from dz_item_model[OF vd[unfolded vs] xin True fm] True
    have 1: "\<exists>cm. item_model S attr x = Some cm \<and> flat cm" by (simp add: item_model_def)
    have 2: "has_key (omit x ''__component'') ''id'' \<longleftrightarrow> has_key x ''id''"
      unfolding kv by (rule has_key_omit) simp
    have 3: "get_prop (omit x ''__component'') ''id'' = get_prop x ''id''"
      unfolding kv by (rule get_prop_omit) simp
    from 1 2 3 True show ?thesis by (simp add: item_data_def)
  next
    case False
    with fm show ?thesis
      by (auto simp: field_models_flat_def item_model_def item_data_def split: option.splits)
  qed
  then show "\<exists>cm. item_model S attr x = Some cm \<and> flat cm"
    and "has_key (item_data attr x) ''id'' \<longleftrightarrow> has_key x ''id''"
    and "get_prop (item_data attr x) ''id'' = get_prop x ''id''" by simp_all
qed

lemma update_field_keys:
  assumes k: "atype attr = ''component'' \<or> atype attr = ''dynamiczone''"
    and fm: "field_models_flat S attr"
    and v: "validate_field v key attr = Inr ()"
  shows "\<exists>R J. map row_key (rows (update_field S m entry key attr v d))
            = map row_key (rows (old_deleted S m entry key attr v d)) @ R
        \<and> map join_key (joins (update_field S m entry key attr v d))
            = map join_key (joins (old_deleted S m entry key attr v d)) @ J
        \<and> length R = length (filter (\<lambda>(ord, x). \<not> has_key x ''id'') (field_items attr v))
        \<and> length J = length R"
proof -
  have "filter (\<lambda>(ord, x). \<not> has_key (item_data attr x) (primaryKey (the (item_model S attr x))))
          (field_items attr v)
        = filter (\<lambda>(ord, x). \<not> has_key x ''id'') (field_items attr v)"
  proof (rule filter_cong[OF refl])
    fix p assume p: "p \<in> set (field_items attr v)"
    obtain ord x where px: "p = (ord, x)" by (cases p)
    from field_items_valid[OF k fm v p[unfolded px]]
    show "(case p of (ord, x) \<Rightarrow> \<not> has_key (item_data attr x) (primaryKey (the (item_model S attr x))))
          = (case p of (ord, x) \<Rightarrow> \<not> has_key x ''id'')"
      by (auto simp: px flat_def)
  qed
  with fold_put_component_keys[of m entry key "\<lambda>x. the (item_model S attr x)" "item_data attr"
          "field_items attr v" "old_deleted S m entry key attr v d"]
  show ?thesis unfolding update_field_old_deleted by simp
qed

lemma dz_to_delete_set:
  "set (dz_to_delete S m entry key (JArr vs) d)
     = {a \<in> set (dz_existing S m entry key d).
          \<not> (\<exists>k \<in> set (dz_supplied S vs). fst k = fst a \<and> uid (snd k) = uid (snd a))}"
  by (auto simp: dz_to_delete_def list_ex_iff)

lemma old_deleted_nothing:
  assumes "atype attr = ''dynamiczone'' \<longrightarrow> dz_to_delete S m entry key v d = []"
    and "atype attr \<noteq> ''dynamiczone'' \<longrightarrow> ids_to_delete m entry key v d = []"
  shows "old_deleted S m entry key attr v d = d"
  using assms by (simp add: old_deleted_def dz_delete_old_def delete_old_def)

lemma update_field_same_ids:
  assumes k: "atype attr = ''component'' \<or> atype attr = ''dynamiczone''"
    and fm: "field_models_flat S attr"
    and v: "validate_field v key attr = Inr ()"
    and all: "\<forall>(ord, x) \<in> set (field_items attr v). has_key x ''id''"
    and eq: "old_deleted S m entry key attr v d = d"
  shows "map row_key (rows (update_field S m entry key attr v d)) = map row_key (rows d)
       \<and> map join_key (joins (update_field S m entry key attr v d)) = map join_key (joins d)"
proof -
  have "filter (\<lambda>(ord, x). \<not> has_key x ''id'') (field_items attr v) = []"
    using all by (auto simp: filter_empty_conv)
  with update_field_keys[OF k fm v, of m entry d] eq show ?thesis by auto
qed

lemma supplied_records_kept:
  assumes k: "atype attr = ''component'' \<or> atype attr = ''dynamiczone''"
    and rf: "registry_flat S" and fm: "field_models_flat S attr"
    and v: "validate_field v key attr = Inr ()"
    and rel: "supplied_related S m entry key attr v d"
    and con: "store_consistent S m entry key attr d"
    and x: "(ord, x) \<in> set (field_items attr v)" "has_key x ''id''"
  shows "\<exists>cm. item_model S attr x = Some cm
           \<and> (\<exists>r \<in> set (rows (old_deleted S m entry key attr v d)).
                 tbl r = collectionName cm \<and> rid r = item_id cm (item_data attr x))
           \<and> (\<exists>j \<in> set (joins (old_deleted S m entry key attr v d)).
                 jtbl j = joinTable m \<and> fk j = rid entry \<and> component_type j = collectionName cm
                 \<and> component_id j = item_id cm (item_data attr x) \<and> field j = key)"
proof (cases "atype attr = ''dynamiczone''")
  case True
  with v have vd: "validateDynamiczoneInput v key attr = Inr ()" by (simp add: validate_field_def)
  from validateDynamiczoneInput_Inr[OF vd] obtain vs where vs: "v = JArr vs"
    and items: "\<forall>x \<in> set vs. \<exists>kv c. x = JObj kv \<and> map_of kv ''__component'' = Some (JStr c) \<and> c \<in> set (components attr)"
    by blast
  from x(1) True have xin: "x \<in> set vs"
    by (auto simp: field_items_def vs dest: in_enumerate_set)
  have mo: "\<forall>x \<in> set vs. \<exists>cm. component_model S (get_prop x ''__component'') = Some cm \<and> flat cm"
    using dz_item_model[OF vd[unfolded vs] _ True fm] by blast
  have mo2: "\<forall>x \<in> set vs. \<exists>c cm. get_prop x ''__component'' = JStr c \<and> map_of (strapi_components S) c = Some cm"
  proof
    fix y assume y: "y \<in> set vs"
    with items obtain kv c where kk: "y = JObj kv" "map_of kv ''__component'' = Some (JStr c)" by blast
    from mo y obtain cm where "component_model S (get_prop y ''__component'') = Some cm" by blast
    with kk show "\<exists>c cm. get_prop y ''__component'' = JStr c \<and> map_of (strapi_components S) c = Some cm"
      by (simp add: get_prop_def)
  qed
  from rel True obtain keep where keep: "dz_ids_to_keep S vs = Inr keep"
    and sub: "\<forall>k \<in> set keep. \<exists>a \<in> set (dz_existing S m entry key d). fst a = fst k \<and> uid (snd a) = uid (snd k)"
    by (auto simp: supplied_related_def vs list_all_iff list_ex_iff split: sum.splits)
  have dzc: "dz_consistent S m entry key d" using con True by (simp add: store_consistent_def)
  from mo xin obtain cm where cm: "component_model S (get_prop x ''__component'') = Some cm" "flat cm" by blast
  from dz_supplied_records_after_delete[OF rf mo2 keep sub dzc xin x(2) cm(1)]
  obtain i where i: "js_toString (get_prop x ''id'') = Some (show_nat i)"
    "\<exists>r \<in> set (table_rows (collectionName cm)
                          (dz_delete_old m entry key (dz_to_delete S m entry key (JArr vs) d) d)). rid r = i"
    "\<exists>j \<in> set (joins (dz_delete_old m entry key (dz_to_delete S m entry key (JArr vs) d) d)).
                 jtbl j = joinTable m \<and> fk j = rid entry \<and> component_type j = collectionName cm
                 \<and> component_id j = i \<and> field j = key"
    by blast
  from field_items_valid(3)[OF k fm v x(1)] i(1)
  have "js_toString (get_prop (item_data attr x) ''id'') = Some (show_nat i)" by simp
  from item_id_show[OF cm(2) this] have id: "item_id cm (item_data attr x) = i" .
  from i(2,3) cm(1) True show ?thesis
    by (auto simp: item_model_def old_deleted_def vs id in_table_rows)
next
  case False
  with k have c: "atype attr = ''component''" by simp
  from fm False obtain cm where cm: "map_of (strapi_components S) (component attr) = Some cm" "flat cm"
    by (auto simp: field_models_flat_def split: option.splits)
  from rel False obtain keep where keep: "ids_to_keep ''id'' (component_items v) = Inr keep"
    and sub: "set keep \<subseteq> set (existing_ids m entry key d)"
    by (auto simp: supplied_related_def list_all_iff split: sum.splits)
  from con False cm(1) have fc: "field_consistent m entry key cm d"
    by (simp add: store_consistent_def)
  from field_items_component_items[OF c v] x(1) have xin: "x \<in> set (component_items v)" by force
  from supplied_records_after_delete[OF cm(2) keep sub fc xin x(2)] cm(1) False
  show ?thesis by (simp add: item_model_def item_data_def old_deleted_def)
qed

subsection \<open>Updating the components of a field\<close>


lemma registry_flat_app: "registry_flat app"
  by (simp add: registry_flat_def app_def section_model_def quote_model_def flat_def componentKeys_def
        title_attr_def)

lemma sections_of_article: "map_of (attributes article_model) ''sections'' = Some sections_attr"
  by (simp add: article_model_def)

lemma view_opened_two_world: "view (Some 0) (opened two_world) = two_db"
  by (simp add: view_def opened_def two_world_def)

lemma joined_two_db:
  "joined article_model an_article ''sections'' two_db
     = [\<lparr>jtbl = ''articles_components'', fk = 1, component_type = ''components_sections'',
          component_id = 1, field = ''sections'', order = 1\<rparr>,
        \<lparr>jtbl = ''articles_components'', fk = 1, component_type = ''components_sections'',
          component_id = 2, field = ''sections'', order = 2\<rparr>]"
  by (simp add: joined_def two_db_def article_model_def an_article_def)

lemma sections_table_two_db:
  "table_rows ''components_sections'' two_db
     = [\<lparr>tbl = ''components_sections'', rid = 1, cols = [(''text'', JStr ''x'')]\<rparr>,
        \<lparr>tbl = ''components_sections'', rid = 2, cols = [(''text'', JStr ''y'')]\<rparr>]"
  by (simp add: table_rows_def two_db_def)

lemma store_consistent_two_db: "store_consistent app article_model an_article ''sections'' sections_attr two_db"
  by (simp add: store_consistent_def field_consistent_def sections_attr_def app_def joined_two_db
        section_model_def sections_table_two_db)

lemma sections_new:
  "get_prop new_sections ''sections''
     = JArr [JObj [(''id'', JNum 2), (''text'', JStr ''y2'')], JObj [(''text'', JStr ''z'')]]"
  by (simp add: new_sections_def get_prop_def)

lemma sections_extra:
  "get_prop extra_section ''sections''
     = JArr [JObj [(''id'', JNum 1)], JObj [(''id'', JNum 2)], JObj [(''text'', JStr ''z'')]]"
  by (simp add: extra_section_def get_prop_def)

lemma existing_two_db: "existing_ids article_model an_article ''sections'' two_db = [show_nat 1, show_nat 2]"
  by (simp add: existing_ids_def joined_two_db)

lemma supplied_new:
  "supplied_ids (component_items (get_prop new_sections ''sections'')) = [show_nat 2]"
  unfolding sections_new by (simp add: supplied_ids_def component_items_def has_key_def get_prop_def show_int_def)

lemma supplied_extra:
  "supplied_ids (component_items (get_prop extra_section ''sections'')) = [show_nat 1, show_nat 2]"
  unfolding sections_extra by (simp add: supplied_ids_def component_items_def has_key_def get_prop_def show_int_def)

lemma related_new:
  "supplied_related app article_model an_article ''sections'' sections_attr
     (get_prop new_sections ''sections'') two_db"
  unfolding sections_new by (simp add: supplied_related_def sections_attr_def component_items_def has_key_def
        get_prop_def js_toString_def show_int_def existing_two_db)

lemma related_extra:
  "supplied_related app article_model an_article ''sections'' sections_attr
     (get_prop extra_section ''sections'') two_db"
  unfolding sections_extra by (simp add: supplied_related_def sections_attr_def component_items_def has_key_def
        get_prop_def js_toString_def show_int_def existing_two_db)

lemma valid_new: "validate_field (get_prop new_sections ''sections'') ''sections'' sections_attr = Inr ()"
  by (simp add: sections_new validate_field_def validateRepeatableInput_def sections_attr_def
        configured_def is_plain_object_def)

lemma valid_extra: "validate_field (get_prop extra_section ''sections'') ''sections'' sections_attr = Inr ()"
  by (simp add: sections_extra validate_field_def validateRepeatableInput_def sections_attr_def
        configured_def is_plain_object_def)

lemma old_deleted_new:
  "old_deleted app article_model an_article ''sections'' sections_attr (get_prop new_sections ''sections'') two_db
     = two_db\<lparr>joins := [\<lparr>jtbl = ''articles_components'', fk = 1, component_type = ''components_sections'',
                           component_id = 2, field = ''sections'', order = 2\<rparr>],
               links := [],
               rows := [\<lparr>tbl = ''articles'', rid = 1, cols = [(''title'', JStr ''A'')]\<rparr>,
                        \<lparr>tbl = ''components_sections'', rid = 2, cols = [(''text'', JStr ''y'')]\<rparr>]\<rparr>"
proof -
  have d: "ids_to_delete article_model an_article ''sections'' (get_prop new_sections ''sections'') two_db
             = [show_nat 1]"
    by (simp add: ids_to_delete_def supplied_new existing_two_db)
  have c: "the (map_of (strapi_components app) (component sections_attr)) = section_model"
    by (simp add: app_def sections_attr_def)
  have cn: "collectionName section_model = ''components_sections''" by (simp add: section_model_def)
  show ?thesis
    unfolding old_deleted_def d c delete_old_def cn sections_table_two_db
    by (simp add: sections_attr_def remove_component_def relate_def unlink_values_def section_model_def
          article_model_def two_db_def)
qed

lemma update_field_new:
  "rows (update_field app article_model an_article ''sections'' sections_attr
           (get_prop new_sections ''sections'') two_db)
     = [\<lparr>tbl = ''articles'', rid = 1, cols = [(''title'', JStr ''A'')]\<rparr>,
        \<lparr>tbl = ''components_sections'', rid = 2, cols = [(''text'', JStr ''y2'')]\<rparr>,
        \<lparr>tbl = ''components_sections'', rid = 3, cols = [(''text'', JStr ''z'')]\<rparr>]"
  "joins (update_field app article_model an_article ''sections'' sections_attr
            (get_prop new_sections ''sections'') two_db)
     = [\<lparr>jtbl = ''articles_components'', fk = 1, component_type = ''components_sections'',
          component_id = 2, field = ''sections'', order = 1\<rparr>,
        \<lparr>jtbl = ''articles_components'', fk = 1, component_type = ''components_sections'',
          component_id = 3, field = ''sections'', order = 2\<rparr>]"
proof -
  have i: "item_id section_model (JObj [(''id'', JNum 2), (''text'', JStr ''y2'')]) = 2"
    using read_show_nat[of 2]
    by (simp add: item_id_def section_model_def get_prop_def show_int_def)
  have f: "field_items sections_attr (JArr [JObj [(''id'', JNum 2), (''text'', JStr ''y2'')], JObj [(''text'', JStr ''z'')]])
             = [(1, JObj [(''id'', JNum 2), (''text'', JStr ''y2'')]), (2, JObj [(''text'', JStr ''z'')])]"
    by (simp add: field_items_def sections_attr_def enumerate_eq_zip upt_rec)
  have m: "\<And>x. item_model app sections_attr x = Some section_model" "\<And>x. item_data sections_attr x = x"
    by (simp_all add: item_model_def item_data_def sections_attr_def app_def)
  have h: "has_key (JObj [(''id'', JNum 2), (''text'', JStr ''y2'')]) (primaryKey section_model)"
    "\<not> has_key (JObj [(''text'', JStr ''z'')]) (primaryKey section_model)"
    by (simp_all add: has_key_def section_model_def)
  have s: "selectAttributes section_model (JObj [(''id'', JNum 2), (''text'', JStr ''y2'')]) = [(''text'', JStr ''y2'')]"
    "selectAttributes section_model (JObj [(''text'', JStr ''z'')]) = [(''text'', JStr ''z'')]"
    by (simp_all add: selectAttributes_def section_model_def props_of_def excludedKeys_def assocKeys_def
          componentKeys_def)
  have cn: "collectionName section_model = ''components_sections''" by (simp add: section_model_def)
  have jt: "joinTable article_model = ''articles_components''" "rid an_article = 1"
    by (simp_all add: article_model_def an_article_def)
  have sq: "\<And>ord db. seq (put_component article_model an_article ''sections'' section_model ord
                         (JObj [(''id'', JNum 2), (''text'', JStr ''y2'')]) db) = seq db"
    by (simp add: put_component_def h reorder_link_def patch_component_def)
  have u: "update_field app article_model an_article ''sections'' sections_attr
             (get_prop new_sections ''sections'') two_db
           = put_component article_model an_article ''sections'' section_model 2 (JObj [(''text'', JStr ''z'')])
               (put_component article_model an_article ''sections'' section_model 1
                  (JObj [(''id'', JNum 2), (''text'', JStr ''y2'')])
                  (old_deleted app article_model an_article ''sections'' sections_attr
                     (get_prop new_sections ''sections'') two_db))"
    unfolding update_field_old_deleted by (simp add: sections_new f m)
  show "rows (update_field app article_model an_article ''sections'' sections_attr
           (get_prop new_sections ''sections'') two_db)
     = [\<lparr>tbl = ''articles'', rid = 1, cols = [(''title'', JStr ''A'')]\<rparr>,
        \<lparr>tbl = ''components_sections'', rid = 2, cols = [(''text'', JStr ''y2'')]\<rparr>,
        \<lparr>tbl = ''components_sections'', rid = 3, cols = [(''text'', JStr ''z'')]\<rparr>]"
    unfolding u old_deleted_new
    by (simp add: put_component_without_id[OF h(2)] put_component_with_id[OF h(1)] i s cn patch_def
          sq jt two_db_def)
  show "joins (update_field app article_model an_article ''sections'' sections_attr
            (get_prop new_sections ''sections'') two_db)
     = [\<lparr>jtbl = ''articles_components'', fk = 1, component_type = ''components_sections'',
          component_id = 2, field = ''sections'', order = 1\<rparr>,
        \<lparr>jtbl = ''articles_components'', fk = 1, component_type = ''components_sections'',
          component_id = 3, field = ''sections'', order = 2\<rparr>]"
    unfolding u old_deleted_new
    by (simp add: put_component_without_id[OF h(2)] put_component_with_id[OF h(1)] i s cn patch_def
          sq jt two_db_def)
qed

lemma has_sections: "has_key new_sections ''sections''" "has_key extra_section ''sections''"
  by (simp_all add: new_sections_def extra_section_def has_key_def)

lemma sections_kind: "atype sections_attr = ''component'' \<or> atype sections_attr = ''dynamiczone''"
  by (simp add: sections_attr_def)



lemma updateComponents_key_absent:
  "\<not> has_key vals key \<Longrightarrow> updateComponents_key cq S m entry vals t key = io_return ()"
  by (simp add: updateComponents_key_def)

lemma for_each_skip:
  "(\<And>x. x \<in> set xs \<Longrightarrow> \<not> P x \<Longrightarrow> f x = io_return ()) \<Longrightarrow> for_each f xs = for_each f (filter P xs)"
  by (induction xs) simp_all

lemma updateComponents_present:
  "updateComponents cq S m entry vals t
     = for_each (updateComponents_key cq S m entry vals t) (filter (has_key vals) (componentKeys m))"
proof (cases "componentKeys m = []")
  case True
  then show ?thesis by (simp add: updateComponents_def)
next
  case False
  then show ?thesis
    using for_each_skip[of "componentKeys m" "has_key vals" "updateComponents_key cq S m entry vals t"]
    by (simp add: updateComponents_def updateComponents_key_absent)
qed

lemma map_of_set_col: "map_of (set_col k v cs) k' = (if k' = k then Some v else map_of cs k')"
  by (induction cs) auto

lemma map_of_patch_other: "k \<notin> fst ` set data \<Longrightarrow> map_of (patch cs data) k = map_of cs k"
  unfolding patch_def
  by (induction data arbitrary: cs) (auto simp: map_of_set_col)

lemma column_patch_other:
  "k \<notin> fst ` set data \<Longrightarrow> column (r\<lparr>cols := patch (cols r) data\<rparr>) k = column r k"
  by (simp add: column_def to_json_def get_prop_def map_of_patch_other)

lemma runUpdate_no_attributes:
  "selectAttributes m vals = [] \<Longrightarrow>
   runUpdate cq S m params vals entry t
     = io_bind (updateComponents cq S m entry vals t) (\<lambda>_.
         if length (pickRelations m vals) > 0
         then updateRelations m (JNum (int (rid entry))) (pickRelations m vals) t
         else findOne m params t)"
  by (simp add: runUpdate_def)

lemma triple_return: "(\<And>d. P d \<Longrightarrow> Q x d) \<Longrightarrow> triple t P (io_return x) Q E"
  by (simp add: triple_def)

lemma triple_throw: "(\<And>d. P d \<Longrightarrow> E d) \<Longrightarrow> triple t P (io_throw e) Q E"
  by (simp add: triple_def)

lemma triple_check:
  "(\<And>d a. P d \<Longrightarrow> r = Inr a \<Longrightarrow> Q a d) \<Longrightarrow> (\<And>d e. P d \<Longrightarrow> r = Inl e \<Longrightarrow> E d)
   \<Longrightarrow> triple t P (io_check r) Q E"
  by (cases r) (simp_all add: triple_def io_check_def)

lemma triple_bind:
  assumes "triple t P m R E" and "\<And>a. triple t (R a) (f a) Q E"
  shows "triple t P (io_bind m f) Q E"
  unfolding triple_def
proof (intro allI impI)
  fix w assume p: "P (view t w)"
  obtain r w' where mw: "m w = (r, w')" by (cases "m w")
  show "case io_bind m f w of (Inr a, w') \<Rightarrow> Q a (view t w') | (Inl e, w') \<Rightarrow> E (view t w')"
  proof (cases r)
    case (Inl e)
    with assms(1) p mw show ?thesis by (auto simp: triple_def io_bind_def)
  next
    case (Inr a)
    with assms(1) p mw have "R a (view t w')" by (auto simp: triple_def)
    with assms(2)[of a] have "case f a w' of (Inr b, w'') \<Rightarrow> Q b (view t w'') | (Inl e, w'') \<Rightarrow> E (view t w'')"
      by (simp add: triple_def)
    with Inr mw show ?thesis by (simp add: io_bind_def)
  qed
qed

lemma triple_read: "(\<And>d. P d \<Longrightarrow> Q (f d) d) \<Longrightarrow> triple t P (read_db t f) Q E"
  by (simp add: triple_def read_db_def)

lemma triple_run:
  "(\<And>d a d'. P d \<Longrightarrow> F d = (Inr a, d') \<Longrightarrow> Q a d') \<Longrightarrow> (\<And>d e d'. P d \<Longrightarrow> F d = (Inl e, d') \<Longrightarrow> E d')
   \<Longrightarrow> triple t P (run_db t F) Q E"
  unfolding triple_def run_db_def
  by (auto split: prod.splits sum.splits)

lemma triple_weaken:
  assumes "triple t P' m Q' E'" "\<And>d. P d \<Longrightarrow> P' d" "\<And>a d. Q' a d \<Longrightarrow> Q a d" "\<And>d. E' d \<Longrightarrow> E d"
  shows "triple t P m Q E"
  using assms unfolding triple_def
  by (auto split: prod.splits sum.splits) blast+

lemma triple_for_each:
  assumes "\<And>x. x \<in> set xs \<Longrightarrow> triple t I (f x) (\<lambda>_. I) E"
  shows "triple t I (for_each f xs) (\<lambda>_. I) E"
  using assms
proof (induction xs)
  case Nil
  show ?case unfolding for_each.simps promise_all.simps by (rule triple_return)
next
  case (Cons x xs)
  show ?case
    unfolding for_each.simps
    by (rule triple_bind[where R = "\<lambda>_. I"]) (use Cons in auto)
qed

lemma triple_promise_all:
  assumes "\<And>x. x \<in> set xs \<Longrightarrow> triple t I (f x) (\<lambda>_. I) E"
  shows "triple t I (promise_all f xs) (\<lambda>_. I) E"
  using assms
proof (induction xs)
  case Nil
  show ?case unfolding for_each.simps promise_all.simps by (rule triple_return)
next
  case (Cons x xs)
  show ?case
    unfolding promise_all.simps
    apply (rule triple_bind[where R = "\<lambda>_. I"])
     apply (use Cons in auto)[1]
    apply (rule triple_bind[where R = "\<lambda>_. I"])
     apply (use Cons in auto)[1]
    apply (rule triple_return)
    apply assumption
    done
qed

lemma tripleD:
  "triple t P m Q E \<Longrightarrow> P (view t w) \<Longrightarrow>
   (case m w of (Inr a, w') \<Rightarrow> Q a (view t w') | (Inl e, w') \<Rightarrow> E (view t w'))"
  by (simp add: triple_def)

lemma frame_inv_links: "frame_inv S m eid k Pr d0 d \<Longrightarrow> frame_inv S m eid k Pr d0 (d\<lparr>links := l\<rparr>)"
  by (simp add: frame_inv_def)

lemma filter_map_untouched:
  assumes "\<And>r. r \<in> set rs \<Longrightarrow> P (g r) = P r" "\<And>r. r \<in> set rs \<Longrightarrow> P r \<Longrightarrow> g r = r"
  shows "filter P (map g rs) = filter P rs"
  using assms by (induction rs) auto

lemma frame_inv_patch_row:
  assumes "frame_inv S m eid k Pr d0 d" "\<not> Pr (T, i)"
  shows "frame_inv S m eid k Pr d0
           (d\<lparr>rows := map (\<lambda>r. if tbl r = T \<and> rid r = i then r\<lparr>cols := f r\<rparr> else r) (rows d)\<rparr>)"
proof -
  have "filter (\<lambda>r. Pr (row_key r)) (map (\<lambda>r. if tbl r = T \<and> rid r = i then r\<lparr>cols := f r\<rparr> else r) (rows d))
          = filter (\<lambda>r. Pr (row_key r)) (rows d)"
    by (rule filter_map_untouched) (use assms(2) in \<open>auto simp: row_key_def\<close>)
  with assms(1) show ?thesis by (simp add: frame_inv_def)
qed

lemma frame_inv_remove_row:
  assumes "frame_inv S m eid k Pr d0 d" "\<not> Pr (T, i)"
  shows "frame_inv S m eid k Pr d0 (d\<lparr>rows := filter (\<lambda>r. \<not> (tbl r = T \<and> rid r = i)) (rows d)\<rparr>)"
proof -
  have "filter (\<lambda>r. Pr (row_key r)) (filter (\<lambda>r. \<not> (tbl r = T \<and> rid r = i)) (rows d))
          = filter (\<lambda>r. Pr (row_key r)) (rows d)"
    using assms(2) by (auto simp: row_key_def intro!: filter_cong)
  with assms(1) show ?thesis by (simp add: frame_inv_def)
qed

lemma frame_inv_fresh:
  assumes "frame_inv S m eid k Pr d0 d" "T \<in> set (component_tables S)"
  shows "\<not> Pr (T, seq d T)"
  using assms by (auto simp: frame_inv_def)

lemma frame_inv_add_row:
  assumes "frame_inv S m eid k Pr d0 d" "T \<in> set (component_tables S)"
  shows "frame_inv S m eid k Pr d0
           (d\<lparr>rows := rows d @ [\<lparr>tbl = T, rid = seq d T, cols = c\<rparr>],
              seq := (seq d)(T := Suc (seq d T))\<rparr>)"
proof -
  have "\<not> Pr (T, seq d T)" using assms by (rule frame_inv_fresh)
  with assms(1) show ?thesis
    by (auto simp: frame_inv_def row_key_def less_Suc_eq)
qed

lemma frame_inv_add_join:
  assumes "frame_inv S m eid k Pr d0 d" "field j \<noteq> k"
    "jtbl j = joinTable m \<and> fk j = eid \<longrightarrow> (\<forall>key \<in> set (touched_keys S m j). \<not> Pr key)"
  shows "frame_inv S m eid k Pr d0 (d\<lparr>joins := joins d @ [j]\<rparr>)"
  using assms by (auto simp: frame_inv_def)

lemma frame_inv_remove_joins:
  assumes "frame_inv S m eid k Pr d0 d" "\<And>j. c j \<Longrightarrow> field j \<noteq> k"
  shows "frame_inv S m eid k Pr d0 (d\<lparr>joins := filter (\<lambda>j. \<not> (jtbl j = jt \<and> c j)) (joins d)\<rparr>)"
proof -
  have "filter (\<lambda>j. field j = k) (filter (\<lambda>j. \<not> (jtbl j = jt \<and> c j)) (joins d))
          = filter (\<lambda>j. field j = k) (joins d)"
    using assms(2) by (auto intro!: filter_cong)
  with assms(1) show ?thesis by (auto simp: frame_inv_def)
qed

lemma touched_keys_order [simp]: "touched_keys S m (j\<lparr>order := ord\<rparr>) = touched_keys S m j"
  by (simp add: touched_keys_def cong: option.case_cong if_cong)

lemma frame_inv_order_joins:
  assumes "frame_inv S m eid k Pr d0 d" "key \<noteq> k"
  shows "frame_inv S m eid k Pr d0
           (d\<lparr>joins := map (\<lambda>j. if jtbl j = jt \<and> fk j = e \<and> component_type j = ct
                                    \<and> component_id j = ci \<and> field j = key
                                 then j\<lparr>order := ord\<rparr> else j) (joins d)\<rparr>)"
proof -
  let ?g = "\<lambda>j. if jtbl j = jt \<and> fk j = e \<and> component_type j = ct \<and> component_id j = ci \<and> field j = key
                 then j\<lparr>order := ord\<rparr> else j"
  have "filter (\<lambda>j. field j = k) (map ?g (joins d)) = filter (\<lambda>j. field j = k) (joins d)"
    by (rule filter_map_untouched) (use assms(2) in auto)
  with assms(1) show ?thesis by (auto simp: frame_inv_def)
qed

lemma triple_run':
  assumes "\<And>d. P d \<Longrightarrow> (case F d of (Inr a, d') \<Rightarrow> Q a d' | (Inl e, d') \<Rightarrow> E d')"
  shows "triple t P (run_db t F) Q E"
proof (rule triple_run)
  fix d a d' assume "P d" "F d = (Inr a, d')"
  with assms[of d] show "Q a d'" by simp
next
  fix d e d' assume "P d" "F d = (Inl e, d')"
  with assms[of d] show "E d'" by simp
qed

lemma triple_updateRelations:
  "triple t (frame_inv S m eid k Pr d0) (updateRelations cm i vals t)
     (\<lambda>js d. frame_inv S m eid k Pr d0 d) (frame_inv S m eid k Pr d0)"
  unfolding updateRelations_def
  by (rule triple_run) (auto simp: frame_inv_links)

lemma same_value_idD: "same_value (column e ''id'') v \<Longrightarrow> js_toString v = Some (show_nat (rid e))"
  by (auto simp: same_value_def column_def to_json_def get_prop_def js_toString_def split: option.splits)

lemma triple_updateRelations_id:
  "triple t (frame_inv S m eid k Pr d0) (updateRelations cm (JNum (int i)) vals t)
     (\<lambda>js d. frame_inv S m eid k Pr d0 d \<and> (\<forall>ci. json_id js = Some ci \<longrightarrow> ci = i))
     (frame_inv S m eid k Pr d0)"
  unfolding updateRelations_def
proof (rule triple_run)
  fix d a d'
  assume I: "frame_inv S m eid k Pr d0 d"
    and r: "(Inr (case filter (\<lambda>r. same_value (column r ''id'') (JNum (int i))) (table_rows (collectionName cm) d) of
                    [] \<Rightarrow> JNull | r # x \<Rightarrow> to_json r),
             d\<lparr>links := relate cm (JNum (int i)) vals (links d)\<rparr>) = (Inr a, d')"
  show "frame_inv S m eid k Pr d0 d' \<and> (\<forall>ci. json_id a = Some ci \<longrightarrow> ci = i)"
  proof (cases "filter (\<lambda>r. same_value (column r ''id'') (JNum (int i))) (table_rows (collectionName cm) d)")
    case Nil
    with r I show ?thesis by (auto simp: frame_inv_links json_id_def get_prop_def)
  next
    case (Cons y ys)
    from filter_hd_in[OF Cons] have "rid y = i" by simp
    with Cons r I show ?thesis by (auto simp: frame_inv_links)
  qed
next
  fix d e d'
  assume "(Inr (case filter (\<lambda>r. same_value (column r ''id'') (JNum (int i))) (table_rows (collectionName cm) d) of
                    [] \<Rightarrow> JNull | r # x \<Rightarrow> to_json r),
             d\<lparr>links := relate cm (JNum (int i)) vals (links d)\<rparr>) = (Inl e, d')"
  then show "frame_inv S m eid k Pr d0 d'" by simp
qed

lemma triple_forge_save:
  assumes "collectionName cm \<in> set (component_tables S)"
  shows "triple t (frame_inv S m eid k Pr d0) (forge_save cm data t)
     (\<lambda>r d. frame_inv S m eid k Pr d0 d \<and> \<not> Pr (collectionName cm, rid r))
     (frame_inv S m eid k Pr d0)"
  unfolding forge_save_def
  apply (rule triple_run')
  apply (simp only: Let_def prod.case sum.case row.simps)
  apply (intro conjI)
   apply (erule frame_inv_add_row, rule assms)
  apply (erule frame_inv_fresh, rule assms)
  done

lemma triple_entry_save:
  assumes "\<not> Pr (tbl e, rid e)"
  shows "triple t (frame_inv S m eid k Pr d0) (entry_save e data t)
     (\<lambda>r d. frame_inv S m eid k Pr d0 d) (frame_inv S m eid k Pr d0)"
  unfolding entry_save_def
  by (rule triple_run') (simp add: frame_inv_patch_row assms)

lemma triple_where_destroy:
  assumes "\<not> Pr (collectionName cm, i)"
  shows "triple t (frame_inv S m eid k Pr d0) (where_destroy cm i t)
     (\<lambda>r d. frame_inv S m eid k Pr d0 d) (frame_inv S m eid k Pr d0)"
  unfolding where_destroy_def
  apply (rule triple_run')
  apply (simp only: prod.case sum.case)
  apply (erule frame_inv_remove_row, rule assms)
  done

lemma triple_where_fetch:
  "triple t (frame_inv S m eid k Pr d0) (where_fetch cm params t)
     (\<lambda>r d. frame_inv S m eid k Pr d0 d
             \<and> (\<forall>e. r = Some e \<longrightarrow> tbl e = collectionName cm \<and> where_matches params e))
     (frame_inv S m eid k Pr d0)"
  unfolding where_fetch_def
proof (rule triple_read)
  fix d assume I: "frame_inv S m eid k Pr d0 d"
  show "frame_inv S m eid k Pr d0 d
        \<and> (\<forall>e. (case filter (where_matches params) (table_rows (collectionName cm) d) of
                   [] \<Rightarrow> None | r # x \<Rightarrow> Some r) = Some e \<longrightarrow>
               tbl e = collectionName cm \<and> where_matches params e)"
  proof (cases "filter (where_matches params) (table_rows (collectionName cm) d)")
    case Nil
    with I show ?thesis by simp
  next
    case (Cons y ys)
    from filter_hd_in[OF Cons] I Cons show ?thesis by (auto simp: in_table_rows)
  qed
qed

lemma set_apply_limit: "set (apply_limit params xs) \<subseteq> set xs"
  by (auto simp: apply_limit_def split: option.splits jsval.splits dest: in_set_takeD)

lemma triple_find_entries:
  "triple t (frame_inv S m eid k Pr d0) (find_entries cm params t)
     (\<lambda>es d. frame_inv S m eid k Pr d0 d
              \<and> (\<forall>x \<in> set es. \<exists>r. x = to_json r \<and> filter_matches params r))
     (frame_inv S m eid k Pr d0)"
  unfolding find_entries_def
  by (rule triple_read) (use set_apply_limit in fastforce)

lemma triple_findOne:
  "triple t (frame_inv S m eid k Pr d0) (findOne cm params t)
     (\<lambda>r d. frame_inv S m eid k Pr d0 d) (frame_inv S m eid k Pr d0)"
  unfolding findOne_def
  by (rule triple_bind[OF triple_find_entries]) (rule triple_return, simp)

lemma triple_join_forge_save:
  assumes "field j \<noteq> k"
    "jtbl j = joinTable m \<and> fk j = eid \<longrightarrow> (\<forall>key \<in> set (touched_keys S m j). \<not> Pr key)"
  shows "triple t (frame_inv S m eid k Pr d0) (join_forge_save j t)
     (\<lambda>r d. frame_inv S m eid k Pr d0 d) (frame_inv S m eid k Pr d0)"
  unfolding join_forge_save_def
  apply (rule triple_run')
  apply (simp only: prod.case sum.case)
  apply (erule frame_inv_add_join, rule assms(1), rule assms(2))
  done

lemma triple_join_where_save:
  assumes "key \<noteq> k"
  shows "triple t (frame_inv S m eid k Pr d0) (join_where_save jt e ct ci key ord t)
     (\<lambda>r d. frame_inv S m eid k Pr d0 d) (frame_inv S m eid k Pr d0)"
  unfolding join_where_save_def
  apply (rule triple_run')
  apply (simp only: prod.case sum.case)
  apply (erule frame_inv_order_joins, rule assms)
  done

lemma triple_join_query_destroy:
  assumes "\<And>j. c j \<Longrightarrow> field j \<noteq> k"
  shows "triple t (frame_inv S m eid k Pr d0) (join_query_destroy jt c t)
     (\<lambda>r d. frame_inv S m eid k Pr d0 d) (frame_inv S m eid k Pr d0)"
  unfolding join_query_destroy_def
  apply (rule triple_run')
  apply (simp only: prod.case sum.case)
  apply (erule frame_inv_remove_joins, erule assms)
  done

lemma triple_join_fetchAll:
  assumes "key \<noteq> k"
  shows "triple t (frame_inv S m eid k Pr d0) (join_fetchAll (joinTable m) eid key t)
     (\<lambda>els d. frame_inv S m eid k Pr d0 d
               \<and> (\<forall>j \<in> set els. field j = key \<and> (\<forall>key' \<in> set (touched_keys S m j). \<not> Pr key')))
     (frame_inv S m eid k Pr d0)"
  unfolding join_fetchAll_def
  by (rule triple_read) (use assms in \<open>auto simp: frame_inv_def\<close>)

lemma triple_assume: "(C \<Longrightarrow> triple t P m Q E) \<Longrightarrow> triple t (\<lambda>d. P d \<and> C) m Q E"
  by (auto simp: triple_def)

lemma triple_create:
  assumes fl: "flat cm" and ct: "collectionName cm \<in> set (component_tables S)"
  shows "triple (Some h) (frame_inv S m eid k Pr d0) (create cq S cm v (Some h))
           (\<lambda>js d. frame_inv S m eid k Pr d0 d \<and> (\<forall>ci. json_id js = Some ci \<longrightarrow> \<not> Pr (collectionName cm, ci)))
           (frame_inv S m eid k Pr d0)"
  unfolding create_def wrapTransaction_handle runCreate_def createComponents_flat[OF fl] io_bind_return
proof (rule triple_bind[OF triple_forge_save[OF ct]])
  fix r
  show "triple (Some h) (\<lambda>d. frame_inv S m eid k Pr d0 d \<and> \<not> Pr (collectionName cm, rid r))
          (updateRelations cm (JNum (int (rid r))) (pickRelations cm v) (Some h))
          (\<lambda>js d. frame_inv S m eid k Pr d0 d \<and> (\<forall>ci. json_id js = Some ci \<longrightarrow> \<not> Pr (collectionName cm, ci)))
          (frame_inv S m eid k Pr d0)"
  proof (rule triple_assume)
    assume n: "\<not> Pr (collectionName cm, rid r)"
    show "triple (Some h) (frame_inv S m eid k Pr d0)
          (updateRelations cm (JNum (int (rid r))) (pickRelations cm v) (Some h))
          (\<lambda>js d. frame_inv S m eid k Pr d0 d \<and> (\<forall>ci. json_id js = Some ci \<longrightarrow> \<not> Pr (collectionName cm, ci)))
          (frame_inv S m eid k Pr d0)"
      by (rule triple_weaken[OF triple_updateRelations_id]) (use n in auto)
  qed
qed

lemma where_matches_id: "where_matches [(''id'', idv)] e \<Longrightarrow> js_toString idv = Some (show_nat (rid e))"
  by (simp add: where_matches_def same_value_idD)

lemma triple_update:
  assumes fl: "flat cm"
    and A: "\<And>i. js_toString idv = Some (show_nat i) \<Longrightarrow> \<not> Pr (collectionName cm, i)"
  shows "triple (Some h) (frame_inv S m eid k Pr d0) (update cq S cm [(''id'', idv)] v (Some h))
           (\<lambda>js d. frame_inv S m eid k Pr d0 d) (frame_inv S m eid k Pr d0)"
  unfolding update_def
proof (rule triple_bind[OF triple_where_fetch])
  fix found
  let ?R = "\<lambda>d. frame_inv S m eid k Pr d0 d
             \<and> (\<forall>e. found = Some e \<longrightarrow> tbl e = collectionName cm \<and> where_matches [(''id'', idv)] e)"
  show "triple (Some h) ?R
          (case found of None \<Rightarrow> io_throw not_found
           | Some entry \<Rightarrow> wrapTransaction S cm (runUpdate cq S cm [(''id'', idv)] v entry) (Some h))
          (\<lambda>js d. frame_inv S m eid k Pr d0 d) (frame_inv S m eid k Pr d0)"
  proof (cases found)
    case None
    show ?thesis unfolding None option.case by (rule triple_throw) simp
  next
    case (Some e)
    have "triple (Some h) (\<lambda>d. frame_inv S m eid k Pr d0 d \<and> (tbl e = collectionName cm \<and> where_matches [(''id'', idv)] e))
            (runUpdate cq S cm [(''id'', idv)] v e (Some h))
            (\<lambda>js d. frame_inv S m eid k Pr d0 d) (frame_inv S m eid k Pr d0)"
    proof (rule triple_assume)
      assume c: "tbl e = collectionName cm \<and> where_matches [(''id'', idv)] e"
      then have np: "\<not> Pr (tbl e, rid e)" using A[OF where_matches_id] by simp
      have s1: "triple (Some h) (frame_inv S m eid k Pr d0)
                  (if length (selectAttributes cm v) > 0 then entry_save e (selectAttributes cm v) (Some h)
                   else io_return e)
                  (\<lambda>r d. frame_inv S m eid k Pr d0 d) (frame_inv S m eid k Pr d0)"
        by (cases "length (selectAttributes cm v) > 0")
           (simp_all only: if_True if_False triple_entry_save[where Pr = Pr and e = e, OF np] triple_return)
      show "triple (Some h) (frame_inv S m eid k Pr d0)
            (runUpdate cq S cm [(''id'', idv)] v e (Some h))
            (\<lambda>js d. frame_inv S m eid k Pr d0 d) (frame_inv S m eid k Pr d0)"
        unfolding runUpdate_def updateComponents_flat[OF fl] io_bind_return
        apply (rule triple_bind[OF s1])
        apply (cases "length (pickRelations cm v) > 0")
         apply (simp_all only: if_True if_False triple_updateRelations triple_findOne)
        done
    qed
    then show ?thesis
      unfolding Some option.case wrapTransaction_handle
      by (rule triple_weaken) auto
  qed
qed

lemma triple_deleteOne:
  assumes fl: "flat cm"
    and A: "\<And>i. js_toString idv = Some (show_nat i) \<Longrightarrow> \<not> Pr (collectionName cm, i)"
  shows "triple (Some h) (frame_inv S m eid k Pr d0) (deleteOne cq S cm idv (Some h))
           (\<lambda>js d. frame_inv S m eid k Pr d0 d) (frame_inv S m eid k Pr d0)"
proof -
  have pk: "primaryKey cm = ''id''" using fl by (simp add: flat_def)
  show ?thesis
    unfolding deleteOne_def pk
  proof (rule triple_bind[OF triple_where_fetch])
    fix found
    let ?R = "\<lambda>d. frame_inv S m eid k Pr d0 d
               \<and> (\<forall>e. found = Some e \<longrightarrow> tbl e = collectionName cm \<and> where_matches [(''id'', idv)] e)"
    show "triple (Some h) ?R
            (case found of None \<Rightarrow> io_throw not_found
             | Some entry \<Rightarrow>
                 io_bind (updateRelations cm idv (unlink_values cm) (Some h))
                   (\<lambda>_. wrapTransaction S cm (runDelete cq S cm entry) (Some h)))
            (\<lambda>js d. frame_inv S m eid k Pr d0 d) (frame_inv S m eid k Pr d0)"
    proof (cases found)
      case None
      show ?thesis unfolding None option.case by (rule triple_throw) simp
    next
      case (Some e)
      have "triple (Some h) (\<lambda>d. frame_inv S m eid k Pr d0 d \<and> (tbl e = collectionName cm \<and> where_matches [(''id'', idv)] e))
              (io_bind (updateRelations cm idv (unlink_values cm) (Some h))
                   (\<lambda>_. runDelete cq S cm e (Some h)))
              (\<lambda>js d. frame_inv S m eid k Pr d0 d) (frame_inv S m eid k Pr d0)"
      proof (rule triple_assume)
        assume c: "tbl e = collectionName cm \<and> where_matches [(''id'', idv)] e"
        then have np: "\<not> Pr (collectionName cm, rid e)" using A[OF where_matches_id] by simp
        show "triple (Some h) (frame_inv S m eid k Pr d0)
              (io_bind (updateRelations cm idv (unlink_values cm) (Some h))
                   (\<lambda>_. runDelete cq S cm e (Some h)))
              (\<lambda>js d. frame_inv S m eid k Pr d0 d) (frame_inv S m eid k Pr d0)"
          unfolding runDelete_def deleteComponents_flat[OF fl] io_bind_return
          apply (rule triple_bind[OF triple_updateRelations])
          apply (rule triple_bind[OF triple_where_destroy[where Pr = Pr and cm = cm and i = "rid e", OF np]])
          apply (rule triple_return)
          apply assumption
          done
      qed
      then show ?thesis
        unfolding Some option.case wrapTransaction_handle
        by (rule triple_weaken) auto
    qed
  qed
qed

lemma filter_matches_limit [simp]: "filter_matches ((''_limit'', v) # params) r = filter_matches params r"
  by (simp add: filter_matches_def)

lemma triple_deleteMany:
  assumes fl: "flat cm"
    and B: "\<And>r. filter_matches params r \<Longrightarrow> \<not> Pr (collectionName cm, rid r)"
  shows "triple (Some h) (frame_inv S m eid k Pr d0) (deleteMany cq S cm params (Some h))
           (\<lambda>js d. frame_inv S m eid k Pr d0 d) (frame_inv S m eid k Pr d0)"
proof -
  have pk: "primaryKey cm = ''id''" using fl by (simp add: flat_def)
  have one: "\<And>x. \<exists>r. x = to_json r \<and> filter_matches params r \<Longrightarrow>
     triple (Some h) (frame_inv S m eid k Pr d0) (deleteOne cq S cm (get_prop x ''id'') (Some h))
           (\<lambda>js d. frame_inv S m eid k Pr d0 d) (frame_inv S m eid k Pr d0)"
  proof -
    fix x assume "\<exists>r. x = to_json r \<and> filter_matches params r"
    then obtain r where r: "x = to_json r" "filter_matches params r" by blast
    show "triple (Some h) (frame_inv S m eid k Pr d0) (deleteOne cq S cm (get_prop x ''id'') (Some h))
           (\<lambda>js d. frame_inv S m eid k Pr d0 d) (frame_inv S m eid k Pr d0)"
      unfolding r(1) get_prop_to_json_id
      by (rule triple_deleteOne[OF fl]) (use B[OF r(2)] in \<open>simp add: js_toString_def\<close>)
  qed
  show ?thesis
  proof (cases "truthy (get_prop (JObj params) (primaryKey cm))")
    case True
    have "triple (Some h) (frame_inv S m eid k Pr d0)
            (io_bind (find_entries cm ((''_limit'', JNum 1) # params) (Some h)) (\<lambda>entries.
               case entries of
                 e # _ \<Rightarrow> deleteOne cq S cm (get_prop e ''id'') (Some h)
               | [] \<Rightarrow> io_return JNull))
            (\<lambda>js d. frame_inv S m eid k Pr d0 d) (frame_inv S m eid k Pr d0)"
    proof (rule triple_bind[OF triple_find_entries])
      fix es
      show "triple (Some h)
              (\<lambda>d. frame_inv S m eid k Pr d0 d
                    \<and> (\<forall>x \<in> set es. \<exists>r. x = to_json r \<and> filter_matches ((''_limit'', JNum 1) # params) r))
              (case es of e # _ \<Rightarrow> deleteOne cq S cm (get_prop e ''id'') (Some h) | [] \<Rightarrow> io_return JNull)
              (\<lambda>js d. frame_inv S m eid k Pr d0 d) (frame_inv S m eid k Pr d0)"
      proof (rule triple_assume)
        assume a: "\<forall>x \<in> set es. \<exists>r. x = to_json r \<and> filter_matches ((''_limit'', JNum 1) # params) r"
        show "triple (Some h) (frame_inv S m eid k Pr d0)
              (case es of e # _ \<Rightarrow> deleteOne cq S cm (get_prop e ''id'') (Some h) | [] \<Rightarrow> io_return JNull)
              (\<lambda>js d. frame_inv S m eid k Pr d0 d) (frame_inv S m eid k Pr d0)"
        proof (cases es)
          case Nil
          show ?thesis unfolding Nil list.case by (rule triple_return)
        next
          case (Cons e rest)
          with a have "\<exists>r. e = to_json r \<and> filter_matches params r" by simp
          from one[OF this] show ?thesis unfolding Cons list.case .
        qed
      qed
    qed
    with True show ?thesis by (simp add: deleteMany_def pk)
  next
    case False
    have "triple (Some h) (frame_inv S m eid k Pr d0)
            (io_bind (find_entries cm params (Some h)) (\<lambda>entries.
             io_bind (promise_all (\<lambda>entry. deleteOne cq S cm (get_prop entry ''id'') (Some h)) entries) (\<lambda>rs.
               io_return (JArr rs))))
            (\<lambda>js d. frame_inv S m eid k Pr d0 d) (frame_inv S m eid k Pr d0)"
    proof (rule triple_bind[OF triple_find_entries])
      fix es
      show "triple (Some h)
              (\<lambda>d. frame_inv S m eid k Pr d0 d \<and> (\<forall>x \<in> set es. \<exists>r. x = to_json r \<and> filter_matches params r))
              (io_bind (promise_all (\<lambda>entry. deleteOne cq S cm (get_prop entry ''id'') (Some h)) es) (\<lambda>rs.
                 io_return (JArr rs)))
              (\<lambda>js d. frame_inv S m eid k Pr d0 d) (frame_inv S m eid k Pr d0)"
      proof (rule triple_assume)
        assume a: "\<forall>x \<in> set es. \<exists>r. x = to_json r \<and> filter_matches params r"
        have "triple (Some h) (frame_inv S m eid k Pr d0)
                (promise_all (\<lambda>entry. deleteOne cq S cm (get_prop entry ''id'') (Some h)) es)
                (\<lambda>_. frame_inv S m eid k Pr d0) (frame_inv S m eid k Pr d0)"
          by (rule triple_promise_all) (use a one in blast)
        then show "triple (Some h) (frame_inv S m eid k Pr d0)
              (io_bind (promise_all (\<lambda>entry. deleteOne cq S cm (get_prop entry ''id'') (Some h)) es) (\<lambda>rs.
                 io_return (JArr rs)))
              (\<lambda>js d. frame_inv S m eid k Pr d0 d) (frame_inv S m eid k Pr d0)"
          by (rule triple_bind) (rule triple_return)
      qed
    qed
    with False show ?thesis by (simp add: deleteMany_def pk)
  qed
qed

lemma triple_if:
  "(c \<Longrightarrow> triple t P x Q E) \<Longrightarrow> (\<not> c \<Longrightarrow> triple t P y Q E) \<Longrightarrow> triple t P (if c then x else y) Q E"
  by simp

lemma triple_check_inv: "triple t I (io_check r) (\<lambda>a d. I d \<and> r = Inr a) I"
  by (rule triple_check) simp_all

lemma touched_keys_component:
  "map_of (attributes m) (field j) = Some a \<Longrightarrow> atype a = ''component'' \<Longrightarrow>
   map_of (strapi_components S) (component a) = Some cm \<Longrightarrow>
   touched_keys S m j = [(collectionName cm, component_id j)]"
  by (simp add: touched_keys_def)

lemma keep_not_protected:
  assumes keep: "ids_to_keep ''id'' items = Inr keep"
    and sub: "list_all (\<lambda>i. i \<in> set (map (\<lambda>el. show_nat (component_id el)) els)) keep"
    and np: "\<forall>j \<in> set els. \<not> Pr (cn, component_id j)"
  shows "\<forall>x \<in> set items. has_key x ''id'' \<longrightarrow>
           (\<forall>i. js_toString (get_prop x ''id'') = Some (show_nat i) \<longrightarrow> \<not> Pr (cn, i))"
proof (intro ballI impI allI)
  fix x i assume x: "x \<in> set items" "has_key x ''id''" and s: "js_toString (get_prop x ''id'') = Some (show_nat i)"
  from ids_to_keep_readable[OF keep x] js_toString_to_text[OF s] have "show_nat i \<in> set keep" by simp
  with sub obtain j where "j \<in> set els" "show_nat (component_id j) = show_nat i"
    by (auto simp: list_all_iff)
  with np show "\<not> Pr (cn, i)" by auto
qed

lemma del_not_protected:
  assumes np: "\<forall>j \<in> set els. \<not> Pr (cn, component_id j)"
    and fm: "filter_matches [(''id_in'', JArr (map JStr (filter (\<lambda>i. i \<notin> set keep)
                (map (\<lambda>el. show_nat (component_id el)) els))))] r"
  shows "\<not> Pr (cn, rid r)"
proof -
  from fm have "show_nat (rid r) \<in> set (map (\<lambda>el. show_nat (component_id el)) els)"
    by (simp add: filter_matches_id_in)
  then obtain j where "j \<in> set els" "show_nat (component_id j) = show_nat (rid r)" by auto
  with np show ?thesis by auto
qed

lemma q_delete_Suc: "q_delete (strapi_query S (Suc n)) = deleteMany (strapi_query S n) S"
  by simp

lemma q_update_Suc: "q_update (strapi_query S (Suc n)) = update (strapi_query S n) S"
  by simp

lemma q_create_Suc: "q_create (strapi_query S (Suc n)) = create (strapi_query S n) S"
  by simp

lemma triple_deleteOldComponents:
  assumes fl: "flat cm" and kk: "key \<noteq> k"
    and at: "map_of (attributes m) key = Some a" "atype a = ''component''"
      "map_of (strapi_components S) (component a) = Some cm"
  shows "triple (Some h) (frame_inv S m (rid entry) k Pr d0)
           (deleteOldComponents (strapi_query S (Suc n)) m entry v key (Some cm) (Some h))
           (\<lambda>u d. frame_inv S m (rid entry) k Pr d0 d
                   \<and> (\<forall>x \<in> set (component_items v). has_key x ''id'' \<longrightarrow>
                        (\<forall>i. js_toString (get_prop x ''id'') = Some (show_nat i)
                           \<longrightarrow> \<not> Pr (collectionName cm, i))))
           (frame_inv S m (rid entry) k Pr d0)"
proof -
  have pk: "primaryKey cm = ''id''" using fl by (simp add: flat_def)
  have ck: "(case component_items v of [] \<Rightarrow> Inr [] | x # xs \<Rightarrow> ids_to_keep ''id'' (component_items v))
              = ids_to_keep ''id'' (component_items v)"
    by (cases "component_items v") simp_all
  have np: "\<And>els. \<forall>j \<in> set els. field j = key \<and> (\<forall>key' \<in> set (touched_keys S m j). \<not> Pr key')
              \<Longrightarrow> \<forall>j \<in> set els. \<not> Pr (collectionName cm, component_id j)"
    using touched_keys_component[OF _ at(2,3)] at(1) by fastforce
  show ?thesis
    unfolding deleteOldComponents_def Let_def component_items_def[symmetric] option.case pk ck
      q_delete_Suc
    apply (rule triple_bind)
     apply (rule triple_check_inv)
    apply (rule triple_assume)
    apply (rule triple_bind)
     apply (rule triple_join_fetchAll[OF kk])
    apply (rule triple_assume)
    apply (rule triple_if)
     apply (rule triple_throw, assumption)
    apply (rule triple_if)
     apply (rule triple_bind)
      apply (rule triple_join_query_destroy)
      apply (simp add: kk)
     apply (rule triple_bind)
      apply (rule triple_deleteMany[OF fl])
      apply (simp only: append.simps)
      apply (drule np)
      apply (erule (1) del_not_protected)
     apply (rule triple_return)
     apply (drule np)
     apply (simp only: not_not)
     apply (frule (2) keep_not_protected)
     apply simp
    apply (rule triple_return)
    apply (drule np)
    apply (simp only: not_not)
    apply (frule (2) keep_not_protected)
    apply simp
    done
qed

lemma triple_case_option:
  "(x = None \<Longrightarrow> triple t P a Q E) \<Longrightarrow> (\<And>y. x = Some y \<Longrightarrow> triple t P (f y) Q E)
   \<Longrightarrow> triple t P (case x of None \<Rightarrow> a | Some y \<Rightarrow> f y) Q E"
  by (cases x) simp_all

lemma triple_updateOrCreate:
  assumes fl: "flat cm" and ct: "collectionName cm \<in> set (component_tables S)" and kk: "key \<noteq> k"
    and tk: "\<And>ci. touched_keys S m \<lparr>jtbl = joinTable m, fk = rid entry, component_type = collectionName cm,
                                     component_id = ci, field = key, order = ord\<rparr>
                   = [(collectionName cm, ci)]"
    and A: "\<And>i. has_key val ''id'' \<Longrightarrow> js_toString (get_prop val ''id'') = Some (show_nat i)
                   \<Longrightarrow> \<not> Pr (collectionName cm, i)"
  shows "triple (Some h) (frame_inv S m (rid entry) k Pr d0)
           (updateOrCreateComponentAndLink (strapi_query S (Suc n)) m entry (Some h) (Some cm) key val ord)
           (\<lambda>u d. frame_inv S m (rid entry) k Pr d0 d) (frame_inv S m (rid entry) k Pr d0)"
proof -
  have pk: "primaryKey cm = ''id''" using fl by (simp add: flat_def)
  show ?thesis
    unfolding updateOrCreateComponentAndLink_def option.case pk q_update_Suc q_create_Suc
    apply (rule triple_if)
     apply (rule triple_bind)
      apply (rule triple_update[OF fl])
      apply (erule (1) A)
     apply (rule triple_case_option)
      apply (rule triple_throw, assumption)
     apply (rule triple_join_where_save[OF kk])
    apply (rule triple_bind)
     apply (rule triple_create[OF fl ct])
    apply (rule triple_assume)
    apply (rule triple_case_option)
     apply (rule triple_throw, assumption)
    apply (rule triple_join_forge_save)
     apply (simp add: kk)
    apply (simp add: tk)
    done
qed

lemma dz_ids_to_delete_subset: "dz_ids_to_delete keep as = Inr ds \<Longrightarrow> set ds \<subseteq> set as"
proof (induction as arbitrary: ds)
  case Nil
  then show ?case by simp
next
  case (Cons a as)
  then show ?case
    by (auto split: sum.splits if_splits)
qed

lemma known_components_set: "known_components as = Inr ds \<Longrightarrow> (i, c) \<in> set ds \<Longrightarrow> (i, Some c) \<in> set as"
proof (induction as arbitrary: ds)
  case Nil
  then show ?case by simp
next
  case (Cons a as)
  then show ?case
    by (cases a) (auto split: sum.splits option.splits)
qed

lemma all_has_True:
  "all_has allIds k = Inr True \<Longrightarrow> \<exists>el \<in> set allIds. fst el = fst k \<and> (\<exists>c. snd el = Some c \<and> uid c = uid (snd k))"
  by (induction allIds) (auto split: if_splits option.splits)

lemma dz_verify_Inr:
  "dz_verify key allIds keep = Inr u \<Longrightarrow> k \<in> set keep \<Longrightarrow>
   \<exists>el \<in> set allIds. fst el = fst k \<and> (\<exists>c. snd el = Some c \<and> uid c = uid (snd k))"
proof (induction keep)
  case Nil
  then show ?case by simp
next
  case (Cons a keep)
  from Cons.prems(1) have t: "all_has allIds a = Inr True" and r: "dz_verify key allIds keep = Inr u"
    by (auto split: sum.splits bool.splits if_splits)
  show ?case
  proof (cases "k = a")
    case True
    with all_has_True[OF t] show ?thesis by simp
  next
    case False
    with Cons.prems(2) have "k \<in> set keep" by simp
    from Cons.IH[OF r this] show ?thesis .
  qed
qed

lemma dz_ids_to_keep_member:
  "dz_ids_to_keep S vs = Inr keep \<Longrightarrow> x \<in> set vs \<Longrightarrow>
   component_model S (get_prop x ''__component'') = Some cm \<Longrightarrow> has_key x (primaryKey cm) \<Longrightarrow>
   \<exists>s. js_toString (get_prop x (primaryKey cm)) = Some s \<and> (s, cm) \<in> set keep"
proof (induction vs arbitrary: keep)
  case Nil
  then show ?case by simp
next
  case (Cons y ys)
  show ?case
  proof (cases "x = y")
    case True
    with Cons.prems show ?thesis by (auto split: option.splits sum.splits)
  next
    case False
    with Cons.prems(2) have xin: "x \<in> set ys" by simp
    from Cons.prems(1) have "\<exists>keep'. dz_ids_to_keep S ys = Inr keep' \<and> set keep' \<subseteq> set keep"
      by (auto split: option.splits sum.splits if_splits)
    then obtain keep' where k: "dz_ids_to_keep S ys = Inr keep'" "set keep' \<subseteq> set keep" by blast
    from Cons.IH[OF k(1) xin Cons.prems(3,4)] k(2) show ?thesis by auto
  qed
qed

lemma component_of_type_flat:
  assumes rf: "registry_flat S" and c: "component_of_type S ct = Some c"
  shows "collectionName c = ct" "flat c" "ct \<in> set (component_tables S)"
    "map_of (strapi_components S) (uid c) = Some c"
proof -
  from component_of_type_member[OF rf c] show 1: "collectionName c = ct"
    and 2: "map_of (strapi_components S) (uid c) = Some c" by simp_all
  from registry_member[OF rf 2] show "flat c" by simp
  from registry_member(1)[OF rf 2] 1 show "ct \<in> set (component_tables S)"
    by (force simp: component_tables_def)
qed

lemma registry_table:
  assumes "registry_flat S" "map_of (strapi_components S) kx = Some c"
  shows "collectionName c \<in> set (component_tables S)"
  using registry_member(1)[OF assms] by (force simp: component_tables_def)

lemma triple_post_static: "C \<Longrightarrow> triple t P m (\<lambda>a. Q) E \<Longrightarrow> triple t P m (\<lambda>a d. Q d \<and> C) E"
  by (auto simp: triple_def split: prod.splits sum.splits)

lemma touched_keys_dynamiczone:
  "map_of (attributes m) (field j) = Some a \<Longrightarrow> atype a = ''dynamiczone'' \<Longrightarrow>
   component_type j \<in> set (component_tables S) \<Longrightarrow>
   touched_keys S m j = [(component_type j, component_id j)]"
  by (simp add: touched_keys_def)

lemma filter_matches_id_JStr: "filter_matches [(''id'', JStr s)] r \<longleftrightarrow> show_nat (rid r) = s"
  by (simp add: filter_matches_def is_in_key_def)

lemma dz_del_not_protected:
  assumes rf: "registry_flat S"
    and N: "\<forall>j \<in> set els. component_type j \<in> set (component_tables S)
              \<longrightarrow> \<not> Pr (component_type j, component_id j)"
    and del: "dz_ids_to_delete keep
                (map (\<lambda>el. (show_nat (component_id el), component_of_type S (component_type el))) els) = Inr ids"
    and kn: "known_components ids = Inr dels"
    and ic: "(i, c) \<in> set dels"
  shows "flat c" and "filter_matches [(''id'', JStr i)] r \<Longrightarrow> \<not> Pr (collectionName c, rid r)"
proof -
  from known_components_set[OF kn ic] dz_ids_to_delete_subset[OF del]
  have "(i, Some c) \<in> (\<lambda>el. (show_nat (component_id el), component_of_type S (component_type el))) ` set els"
    by auto
  then have "\<exists>j \<in> set els. i = show_nat (component_id j) \<and> component_of_type S (component_type j) = Some c"
    by (auto simp: image_iff)
  then have "flat c \<and> (filter_matches [(''id'', JStr i)] r \<longrightarrow> \<not> Pr (collectionName c, rid r))"
  proof
    fix j assume j: "j \<in> set els"
      and jj: "i = show_nat (component_id j) \<and> component_of_type S (component_type j) = Some c"
    from component_of_type_flat[OF rf conjunct2[OF jj]] have c: "flat c"
      "collectionName c = component_type j" "component_type j \<in> set (component_tables S)" by simp_all
    show ?thesis
    proof (intro conjI impI)
      show "flat c" by (rule c(1))
      assume "filter_matches [(''id'', JStr i)] r"
      then have "rid r = component_id j" using jj by (simp add: filter_matches_id_JStr)
      with N j c show "\<not> Pr (collectionName c, rid r)" by simp
    qed
  qed
  then show "flat c" and "filter_matches [(''id'', JStr i)] r \<Longrightarrow> \<not> Pr (collectionName c, rid r)"
    by simp_all
qed

lemma dz_keep_not_protected:
  assumes rf: "registry_flat S"
    and N: "\<forall>j \<in> set els. component_type j \<in> set (component_tables S)
              \<longrightarrow> \<not> Pr (component_type j, component_id j)"
    and keep: "dz_ids_to_keep S vs = Inr keep"
    and ver: "dz_verify key
                (map (\<lambda>el. (show_nat (component_id el), component_of_type S (component_type el))) els) keep = Inr u"
  shows "\<forall>x \<in> set vs. \<forall>cm. component_model S (get_prop x ''__component'') = Some cm \<longrightarrow> has_key x ''id'' \<longrightarrow>
           (\<forall>i. js_toString (get_prop x ''id'') = Some (show_nat i) \<longrightarrow> \<not> Pr (collectionName cm, i))"
proof (intro ballI allI impI)
  fix x cm i
  assume x: "x \<in> set vs" and cm: "component_model S (get_prop x ''__component'') = Some cm"
    and hk: "has_key x ''id''" and s: "js_toString (get_prop x ''id'') = Some (show_nat i)"
  from cm have reg: "map_of (strapi_components S) (template_text (get_prop x ''__component'')) = Some cm"
    by (simp add: component_model_def)
  from registry_member[OF rf reg] reg have rcm: "map_of (strapi_components S) (uid cm) = Some cm"
    and pk: "primaryKey cm = ''id''" by (simp_all add: flat_def)
  from dz_ids_to_keep_member[OF keep x cm] hk s pk have "(show_nat i, cm) \<in> set keep" by simp
  from dz_verify_Inr[OF ver this] obtain j c where j: "j \<in> set els" "show_nat (component_id j) = show_nat i"
    "component_of_type S (component_type j) = Some c" "uid c = uid cm" by auto
  from component_of_type_flat[OF rf j(3)] have c: "collectionName c = component_type j"
    "component_type j \<in> set (component_tables S)" "map_of (strapi_components S) (uid c) = Some c"
    by simp_all
  from registry_same_uid[OF c(3) rcm j(4)] have "c = cm" .
  with N j(1,2) c show "\<not> Pr (collectionName cm, i)" by auto
qed

lemma triple_dz_delete_one:
  assumes fl: "flat c" and B: "\<And>r. filter_matches [(''id'', JStr i)] r \<Longrightarrow> \<not> Pr (collectionName c, rid r)"
  shows "triple (Some h) (frame_inv S m eid k Pr d0)
           (io_bind (q_delete (strapi_query S (Suc n)) c [(primaryKey c, JStr i)] (Some h)) (\<lambda>_. io_return ()))
           (\<lambda>u. frame_inv S m eid k Pr d0) (frame_inv S m eid k Pr d0)"
proof -
  have pk: "primaryKey c = ''id''" using fl by (simp add: flat_def)
  show ?thesis
    unfolding pk q_delete_Suc
    apply (rule triple_bind)
     apply (rule triple_deleteMany[OF fl])
     apply (erule B)
    apply (rule triple_return)
    apply assumption
    done
qed

lemma triple_deleteDynamicZoneOldComponents:
  assumes rf: "registry_flat S" and kk: "key \<noteq> k"
    and at: "map_of (attributes m) key = Some a" "atype a = ''dynamiczone''"
  shows "triple (Some h) (frame_inv S m (rid entry) k Pr d0)
           (deleteDynamicZoneOldComponents (strapi_query S (Suc n)) S m entry v key (Some h))
           (\<lambda>u d. frame_inv S m (rid entry) k Pr d0 d
                   \<and> (\<forall>x \<in> set (case v of JArr vs \<Rightarrow> vs | _ \<Rightarrow> []).
                        \<forall>cm. component_model S (get_prop x ''__component'') = Some cm \<longrightarrow> has_key x ''id'' \<longrightarrow>
                          (\<forall>i. js_toString (get_prop x ''id'') = Some (show_nat i)
                             \<longrightarrow> \<not> Pr (collectionName cm, i))))
           (frame_inv S m (rid entry) k Pr d0)"
proof -
  have np: "\<And>els. \<forall>j \<in> set els. field j = key \<and> (\<forall>key' \<in> set (touched_keys S m j). \<not> Pr key')
              \<Longrightarrow> \<forall>j \<in> set els. component_type j \<in> set (component_tables S)
                     \<longrightarrow> \<not> Pr (component_type j, component_id j)"
    using touched_keys_dynamiczone[OF _ at(2)] at(1) by fastforce
  show ?thesis
    unfolding deleteDynamicZoneOldComponents_def Let_def
    apply (rule triple_bind)
     apply (rule triple_check_inv)
    apply (rule triple_assume)
    apply (rule triple_bind)
     apply (rule triple_join_fetchAll[OF kk])
    apply (rule triple_assume)
    apply (drule np)
    apply (rule triple_bind)
     apply (rule triple_check_inv)
    apply (rule triple_assume)
    apply (rule triple_bind)
     apply (rule triple_check_inv)
    apply (rule triple_assume)
    apply (rule triple_post_static)
     apply (erule (2) dz_keep_not_protected[OF rf])
    apply (rule triple_if)
     apply (rule triple_bind)
      apply (rule triple_check_inv)
     apply (rule triple_assume)
     apply (rule triple_bind)
      apply (rule triple_join_query_destroy)
      apply (simp add: kk)
     apply (rule triple_for_each)
     apply (case_tac x)
     apply (simp only: prod.case)
     apply (rule triple_dz_delete_one)
      apply (erule (3) dz_del_not_protected(1)[OF rf])
     apply (erule (4) dz_del_not_protected(2)[OF rf])
    apply (rule triple_return)
    apply assumption
    done
qed

lemma omit_id:
  "has_key (omit x ''__component'') ''id'' \<Longrightarrow>
   has_key x ''id'' \<and> get_prop (omit x ''__component'') ''id'' = get_prop x ''id''"
proof (cases x)
  case (JObj kv)
  assume "has_key (omit x ''__component'') ''id''"
  then show ?thesis
    unfolding JObj using has_key_omit[of "''id''" "''__component''" kv] get_prop_omit[of "''id''" "''__component''" kv]
    by simp
qed (simp_all add: omit_def props_of_def has_key_def)

lemma indexed_items: "(idx, x) \<in> set (indexed v) \<Longrightarrow> x \<in> set (case v of JArr vs \<Rightarrow> vs | _ \<Rightarrow> [])"
  by (cases v) (auto simp: indexed_def dest: in_enumerate_set)

lemma indexed_component_items: "(idx, x) \<in> set (indexed v) \<Longrightarrow> x \<in> set (component_items v)"
  by (cases v) (auto simp: indexed_def component_items_def dest: in_enumerate_set)

lemma triple_deleteOldComponents_None:
  assumes kk: "key \<noteq> k"
  shows "triple (Some h) (frame_inv S m (rid entry) k Pr d0)
           (deleteOldComponents cq m entry v key None (Some h))
           (\<lambda>u. frame_inv S m (rid entry) k Pr d0) (frame_inv S m (rid entry) k Pr d0)"
  unfolding deleteOldComponents_def Let_def option.case
  apply (rule triple_bind)
   apply (rule triple_check_inv)
  apply (rule triple_assume)
  apply (rule triple_bind)
   apply (rule triple_join_fetchAll[OF kk])
  apply (rule triple_assume)
  apply (rule triple_if)
   apply (rule triple_throw, assumption)
  apply (rule triple_if)
   apply (rule triple_bind)
    apply (rule triple_join_query_destroy)
    apply (simp add: kk)
   apply (rule triple_throw, assumption)
  apply (rule triple_return)
  apply assumption
  done

lemma triple_updateOrCreate_None:
  "triple t I (updateOrCreateComponentAndLink cq m entry t None key val ord) (\<lambda>u. I) I"
  unfolding updateOrCreateComponentAndLink_def option.case
  by (rule triple_throw)

lemma triple_component_field:
  assumes rf: "registry_flat S" and kk: "key \<noteq> k"
    and at: "map_of (attributes m) key = Some a" "atype a = ''component''"
  shows "triple (Some h) (frame_inv S m (rid entry) k Pr d0)
           (io_bind (io_check (if rp then validateRepeatableInput v key a
                               else validateNonRepeatableInput v key a)) (\<lambda>_.
            io_bind (deleteOldComponents (strapi_query S (Suc n)) m entry v key
                       (map_of (strapi_components S) (component a)) (Some h)) (\<lambda>_.
              if rp then
                for_each (\<lambda>(idx, val).
                    updateOrCreateComponentAndLink (strapi_query S (Suc n)) m entry (Some h)
                      (map_of (strapi_components S) (component a)) key val (idx + 1))
                  (indexed v)
              else if v = JNull then io_return ()
              else updateOrCreateComponentAndLink (strapi_query S (Suc n)) m entry (Some h)
                     (map_of (strapi_components S) (component a)) key v 1)))
           (\<lambda>u. frame_inv S m (rid entry) k Pr d0) (frame_inv S m (rid entry) k Pr d0)"
proof (cases "map_of (strapi_components S) (component a)")
  case None
  show ?thesis
    unfolding None
    apply (rule triple_bind)
     apply (rule triple_check_inv)
    apply (rule triple_assume)
    apply (rule triple_bind)
     apply (rule triple_deleteOldComponents_None[OF kk])
    apply (rule triple_if)
     apply (rule triple_for_each)
     apply (case_tac x)
     apply (simp only: prod.case)
     apply (rule triple_updateOrCreate_None)
    apply (rule triple_if)
     apply (rule triple_return, assumption)
    apply (rule triple_updateOrCreate_None)
    done
next
  case (Some cm)
  from registry_member[OF rf Some] have fl: "flat cm" by simp
  from registry_table[OF rf Some] have ct: "collectionName cm \<in> set (component_tables S)" .
  have tk: "\<And>ci ord. touched_keys S m \<lparr>jtbl = joinTable m, fk = rid entry, component_type = collectionName cm,
                                     component_id = ci, field = key, order = ord\<rparr>
                   = [(collectionName cm, ci)]"
    by (simp add: touched_keys_def at Some)
  have obj: "\<And>u. (if rp then validateRepeatableInput v key a else validateNonRepeatableInput v key a) = Inr u
                \<Longrightarrow> \<not> rp \<Longrightarrow> v \<noteq> JNull \<Longrightarrow> v \<in> set (component_items v)"
  proof -
    fix u assume "(if rp then validateRepeatableInput v key a else validateNonRepeatableInput v key a) = Inr u"
      and "\<not> rp" and n: "v \<noteq> JNull"
    then have "validateNonRepeatableInput v key a = Inr ()" by simp
    from validate_nonrepeatable_value[OF this] n show "v \<in> set (component_items v)"
      by (cases v) (auto simp: component_items_def is_plain_object_def)
  qed
  show ?thesis
    unfolding Some
    apply (rule triple_bind)
     apply (rule triple_check_inv)
    apply (rule triple_assume)
    apply (rule triple_bind)
     apply (rule triple_deleteOldComponents[OF fl kk at Some])
    apply (rule triple_assume)
    apply (rule triple_if)
     apply (rule triple_for_each)
     apply (case_tac x)
     apply (simp only: prod.case)
     apply (rule triple_updateOrCreate[OF fl ct kk tk])
     apply (drule indexed_component_items)
     apply blast
    apply (rule triple_if)
     apply (rule triple_return, assumption)
    apply (rule triple_updateOrCreate[OF fl ct kk tk])
    apply (drule (2) obj)
    apply blast
    done
qed

lemma triple_updateOrCreate_dz:
  assumes rf: "registry_flat S" and kk: "key \<noteq> k"
    and at: "map_of (attributes m) key = Some a" "atype a = ''dynamiczone''"
    and K: "\<forall>cm. component_model S (get_prop val ''__component'') = Some cm \<longrightarrow> has_key val ''id'' \<longrightarrow>
              (\<forall>i. js_toString (get_prop val ''id'') = Some (show_nat i) \<longrightarrow> \<not> Pr (collectionName cm, i))"
  shows "triple (Some h) (frame_inv S m (rid entry) k Pr d0)
           (updateOrCreateComponentAndLink (strapi_query S (Suc n)) m entry (Some h)
              (component_model S (get_prop val ''__component'')) key (omit val ''__component'') ord)
           (\<lambda>u. frame_inv S m (rid entry) k Pr d0) (frame_inv S m (rid entry) k Pr d0)"
proof (cases "component_model S (get_prop val ''__component'')")
  case None
  show ?thesis unfolding None by (rule triple_updateOrCreate_None)
next
  case (Some cm)
  then have reg: "map_of (strapi_components S) (template_text (get_prop val ''__component'')) = Some cm"
    by (simp add: component_model_def)
  from registry_member[OF rf reg] have fl: "flat cm" by simp
  from registry_table[OF rf reg] have ct: "collectionName cm \<in> set (component_tables S)" .
  have tk: "\<And>ci. touched_keys S m \<lparr>jtbl = joinTable m, fk = rid entry, component_type = collectionName cm,
                                     component_id = ci, field = key, order = ord\<rparr>
                   = [(collectionName cm, ci)]"
    by (simp add: touched_keys_def at ct)
  show ?thesis
    unfolding Some
    apply (rule triple_updateOrCreate[OF fl ct kk tk])
    apply (drule omit_id)
    using K Some apply simp
    done
qed

lemma triple_dynamiczone_field:
  assumes rf: "registry_flat S" and kk: "key \<noteq> k"
    and at: "map_of (attributes m) key = Some a" "atype a = ''dynamiczone''"
  shows "triple (Some h) (frame_inv S m (rid entry) k Pr d0)
           (io_bind (io_check vr) (\<lambda>_.
            io_bind (deleteDynamicZoneOldComponents (strapi_query S (Suc n)) S m entry v key (Some h)) (\<lambda>_.
              for_each (\<lambda>(idx, val).
                  updateOrCreateComponentAndLink (strapi_query S (Suc n)) m entry (Some h)
                    (component_model S (get_prop val ''__component''))
                    key (omit val ''__component'') (idx + 1))
                (indexed v))))
           (\<lambda>u. frame_inv S m (rid entry) k Pr d0) (frame_inv S m (rid entry) k Pr d0)"
  apply (rule triple_bind)
   apply (rule triple_check_inv)
  apply (rule triple_assume)
  apply (rule triple_bind)
   apply (rule triple_deleteDynamicZoneOldComponents[OF rf kk at])
  apply (rule triple_assume)
  apply (rule triple_for_each)
  apply (case_tac x)
  apply (simp only: prod.case)
  apply (rule triple_updateOrCreate_dz[OF rf kk at])
  apply (drule indexed_items)
  apply blast
  done

lemma triple_updateComponents_key:
  assumes rf: "registry_flat S" and abs: "\<not> has_key vals k"
  shows "triple (Some h) (frame_inv S m (rid entry) k Pr d0)
           (updateComponents_key (strapi_query S (Suc n)) S m entry vals (Some h) key)
           (\<lambda>u. frame_inv S m (rid entry) k Pr d0) (frame_inv S m (rid entry) k Pr d0)"
proof (cases "has_key vals key")
  case False
  show ?thesis unfolding updateComponents_key_absent[OF False] by (rule triple_return)
next
  case True
  with abs have kk: "key \<noteq> k" by auto
  show ?thesis
  proof (cases "map_of (attributes m) key")
    case None
    have eq1: "updateComponents_key (strapi_query S (Suc n)) S m entry vals (Some h) key = io_return ()"
      using True None by (simp add: updateComponents_key_def)
    show ?thesis unfolding eq1 by (rule triple_return)
  next
    case (Some a)
    show ?thesis
    proof (cases "atype a = ''component''")
      case c: True
      have eq2: "updateComponents_key (strapi_query S (Suc n)) S m entry vals (Some h) key
              = io_bind (io_check (if repeatable a then validateRepeatableInput (get_prop vals key) key a
                               else validateNonRepeatableInput (get_prop vals key) key a)) (\<lambda>_.
            io_bind (deleteOldComponents (strapi_query S (Suc n)) m entry (get_prop vals key) key
                       (map_of (strapi_components S) (component a)) (Some h)) (\<lambda>_.
              if repeatable a then
                for_each (\<lambda>(idx, val).
                    updateOrCreateComponentAndLink (strapi_query S (Suc n)) m entry (Some h)
                      (map_of (strapi_components S) (component a)) key val (idx + 1))
                  (indexed (get_prop vals key))
              else if get_prop vals key = JNull then io_return ()
              else updateOrCreateComponentAndLink (strapi_query S (Suc n)) m entry (Some h)
                     (map_of (strapi_components S) (component a)) key (get_prop vals key) 1))"
        using True Some c
        by (cases "repeatable a") (simp_all add: updateComponents_key_def Let_def del: strapi_query.simps)
      show ?thesis unfolding eq2
        by (rule triple_component_field[OF rf kk Some c])
    next
      case nc: False
      show ?thesis
      proof (cases "atype a = ''dynamiczone''")
        case dz: True
        have eq3: "updateComponents_key (strapi_query S (Suc n)) S m entry vals (Some h) key
              = io_bind (io_check (validateDynamiczoneInput (get_prop vals key) key a)) (\<lambda>_.
                io_bind (deleteDynamicZoneOldComponents (strapi_query S (Suc n)) S m entry (get_prop vals key)
                           key (Some h)) (\<lambda>_.
                  for_each (\<lambda>(idx, val).
                      updateOrCreateComponentAndLink (strapi_query S (Suc n)) m entry (Some h)
                        (component_model S (get_prop val ''__component''))
                        key (omit val ''__component'') (idx + 1))
                    (indexed (get_prop vals key))))"
          using True Some dz
          by (simp add: updateComponents_key_def Let_def del: strapi_query.simps)
        show ?thesis unfolding eq3
          by (rule triple_dynamiczone_field[OF rf kk Some dz])
      next
        case False
        have eq4: "updateComponents_key (strapi_query S (Suc n)) S m entry vals (Some h) key = io_return ()"
          using True Some nc False by (simp add: updateComponents_key_def)
        show ?thesis unfolding eq4 by (rule triple_return)
      qed
    qed
  qed
qed

lemma triple_updateComponents:
  assumes rf: "registry_flat S" and abs: "\<not> has_key vals k"
  shows "triple (Some h) (frame_inv S m (rid entry) k Pr d0)
           (updateComponents (strapi_query S (Suc n)) S m entry vals (Some h))
           (\<lambda>u. frame_inv S m (rid entry) k Pr d0) (frame_inv S m (rid entry) k Pr d0)"
  unfolding updateComponents_present
  by (rule triple_for_each) (rule triple_updateComponents_key[OF rf abs])

lemma touched_keys_tables:
  assumes rf: "registry_flat S" and x: "key' \<in> set (touched_keys S m j)"
  shows "fst key' \<in> set (component_tables S)"
proof (cases "map_of (attributes m) (field j)")
  case None
  with x show ?thesis by (simp add: touched_keys_def)
next
  case (Some a)
  show ?thesis
  proof (cases "atype a = ''component''")
    case True
    show ?thesis
    proof (cases "map_of (strapi_components S) (component a)")
      case None
      with x Some True show ?thesis by (simp add: touched_keys_def)
    next
      case c: (Some c)
      from registry_table[OF rf c] x Some True c show ?thesis by (simp add: touched_keys_def)
    qed
  next
    case False
    with x Some show ?thesis by (simp add: touched_keys_def split: if_splits)
  qed
qed

lemma field_separate_frame_inv:
  assumes rf: "registry_flat S" and sep: "field_separate S m e k d"
    and j: "joins d1 = joins d" and s: "seq d1 = seq d"
  shows "frame_inv S m (rid e) k (kept_rows S m e k d) d1 d1"
  unfolding frame_inv_def
proof (intro conjI allI impI ballI)
  fix T i assume "kept_rows S m e k d (T, i)" "T \<in> set (component_tables S)"
  then have "(T, i) \<in> set (instances m e k d)" by (simp add: kept_rows_def)
  with sep show "i < seq d1 T" by (auto simp: field_separate_def list_all_iff s)
next
  fix j' key'
  assume jj: "j' \<in> set (joins d1)" "jtbl j' = joinTable m \<and> fk j' = rid e \<and> field j' \<noteq> k"
    and kk: "key' \<in> set (touched_keys S m j')"
  from sep jj kk have "key' \<notin> set (instances m e k d)"
    by (auto simp: field_separate_def list_all_iff j)
  with touched_keys_tables[OF rf kk] show "\<not> kept_rows S m e k d key'"
    by (simp add: kept_rows_def)
qed simp_all

lemma frame_inv_joined:
  assumes "frame_inv S m eid k Pr d0 d"
  shows "joined m e k d = joined m e k d0"
proof -
  have 1: "\<And>x. joined m e k x = filter (\<lambda>j. jtbl j = joinTable m \<and> fk j = rid e) (filter (\<lambda>j. field j = k) (joins x))"
    by (auto simp: joined_def intro!: filter_cong)
  from assms have 2: "filter (\<lambda>j. field j = k) (joins d) = filter (\<lambda>j. field j = k) (joins d0)"
    by (simp add: frame_inv_def)
  show ?thesis unfolding 1 2 ..
qed

lemma frame_inv_rows:
  assumes "frame_inv S m eid k Pr d0 d" "\<And>r. Q r \<Longrightarrow> Pr (row_key r)"
  shows "filter Q (rows d) = filter Q (rows d0)"
proof -
  have 1: "\<And>rs. filter Q rs = filter Q (filter (\<lambda>r. Pr (row_key r)) rs)"
    using assms(2) by (auto intro!: filter_cong)
  from assms(1) have 2: "filter (\<lambda>r. Pr (row_key r)) (rows d) = filter (\<lambda>r. Pr (row_key r)) (rows d0)"
    by (simp add: frame_inv_def)
  have "filter Q (rows d) = filter Q (filter (\<lambda>r. Pr (row_key r)) (rows d))" by (rule 1)
  also have "\<dots> = filter Q (filter (\<lambda>r. Pr (row_key r)) (rows d0))" unfolding 2 ..
  also have "\<dots> = filter Q (rows d0)" by (rule 1[symmetric])
  finally show ?thesis .
qed

lemma triple_first_save:
  "triple (Some h) (\<lambda>x. x = d)
     (if length data > 0 then entry_save e data (Some h) else io_return e)
     (\<lambda>ue x. x = d\<lparr>rows := map (\<lambda>r. if tbl r = tbl e \<and> rid r = rid e
                                      then r\<lparr>cols := patch (cols r) data\<rparr> else r) (rows d)\<rparr>
              \<and> rid ue = rid e)
     (\<lambda>x. x = d\<lparr>rows := map (\<lambda>r. if tbl r = tbl e \<and> rid r = rid e
                                   then r\<lparr>cols := patch (cols r) data\<rparr> else r) (rows d)\<rparr>)"
proof (cases "length data > 0")
  case False
  then have "data = []" by simp
  then show ?thesis
    by (simp add: map_patch_rows_Nil triple_def cong: if_cong)
next
  case True
  have none: "\<not> list_ex (\<lambda>r. tbl r = tbl e \<and> rid r = rid e) (rows d) \<Longrightarrow>
     map (\<lambda>r. if tbl r = tbl e \<and> rid r = rid e then r\<lparr>cols := patch (cols r) data\<rparr> else r) (rows d) = rows d"
    by (rule map_idI) (auto simp: list_ex_iff)
  show ?thesis
    using True
    apply (simp only: if_True entry_save_def)
    apply (rule triple_run')
    apply (simp add: none)
    done
qed

lemma triple_runUpdate:
  assumes rf: "registry_flat S" and abs: "\<not> has_key vals k"
    and inv: "frame_inv S m (rid e) k Pr
                (d\<lparr>rows := map (\<lambda>r. if tbl r = tbl e \<and> rid r = rid e
                                      then r\<lparr>cols := patch (cols r) (selectAttributes m vals)\<rparr> else r) (rows d)\<rparr>)
                (d\<lparr>rows := map (\<lambda>r. if tbl r = tbl e \<and> rid r = rid e
                                      then r\<lparr>cols := patch (cols r) (selectAttributes m vals)\<rparr> else r) (rows d)\<rparr>)"
  shows "triple (Some h) (\<lambda>x. x = d)
           (runUpdate (strapi_query S (Suc n)) S m params vals e (Some h))
           (\<lambda>u. frame_inv S m (rid e) k Pr
                (d\<lparr>rows := map (\<lambda>r. if tbl r = tbl e \<and> rid r = rid e
                                      then r\<lparr>cols := patch (cols r) (selectAttributes m vals)\<rparr> else r) (rows d)\<rparr>))
           (frame_inv S m (rid e) k Pr
                (d\<lparr>rows := map (\<lambda>r. if tbl r = tbl e \<and> rid r = rid e
                                      then r\<lparr>cols := patch (cols r) (selectAttributes m vals)\<rparr> else r) (rows d)\<rparr>))"
proof -
  define d1 where "d1 = d\<lparr>rows := map (\<lambda>r. if tbl r = tbl e \<and> rid r = rid e
                                      then r\<lparr>cols := patch (cols r) (selectAttributes m vals)\<rparr> else r) (rows d)\<rparr>"
  note inv' = inv[folded d1_def]
  have s1: "triple (Some h) (\<lambda>x. x = d)
     (if length (selectAttributes m vals) > 0 then entry_save e (selectAttributes m vals) (Some h) else io_return e)
     (\<lambda>ue x. x = d1 \<and> rid ue = rid e) (frame_inv S m (rid e) k Pr d1)"
    unfolding d1_def
    by (rule triple_weaken[OF triple_first_save]) (use inv in auto)
  have rest: "\<And>ue :: row. triple (Some h) (\<lambda>x. x = d1 \<and> rid ue = rid e)
      (io_bind (updateComponents (strapi_query S (Suc n)) S m ue vals (Some h)) (\<lambda>_.
         if length (pickRelations m vals) > 0
         then updateRelations m (JNum (int (rid e))) (pickRelations m vals) (Some h)
         else findOne m params (Some h)))
      (\<lambda>u. frame_inv S m (rid e) k Pr d1) (frame_inv S m (rid e) k Pr d1)"
  proof (rule triple_assume)
    fix ue :: row assume r: "rid ue = rid e"
    have "triple (Some h) (frame_inv S m (rid e) k Pr d1)
      (io_bind (updateComponents (strapi_query S (Suc n)) S m ue vals (Some h)) (\<lambda>_.
         if length (pickRelations m vals) > 0
         then updateRelations m (JNum (int (rid e))) (pickRelations m vals) (Some h)
         else findOne m params (Some h)))
      (\<lambda>u. frame_inv S m (rid e) k Pr d1) (frame_inv S m (rid e) k Pr d1)"
      apply (rule triple_bind)
       apply (rule triple_updateComponents[OF rf abs, of _ m ue, unfolded r])
      apply (rule triple_if)
       apply (rule triple_updateRelations)
      apply (rule triple_findOne)
      done
    then show "triple (Some h) (\<lambda>x. x = d1)
      (io_bind (updateComponents (strapi_query S (Suc n)) S m ue vals (Some h)) (\<lambda>_.
         if length (pickRelations m vals) > 0
         then updateRelations m (JNum (int (rid e))) (pickRelations m vals) (Some h)
         else findOne m params (Some h)))
      (\<lambda>u. frame_inv S m (rid e) k Pr d1) (frame_inv S m (rid e) k Pr d1)"
      by (rule triple_weaken) (use inv' in auto)
  qed
  show ?thesis
    unfolding d1_def[symmetric] runUpdate_def
    by (rule triple_bind[OF s1 rest])
qed

lemma update_fetched:
  assumes "filter (where_matches params) (table_rows (collectionName m) (view (Some h) w)) = e # es"
  shows "update cq S m params vals (Some h) w = runUpdate cq S m params vals e (Some h) w"
  using assms by (simp add: update_def where_fetch_def read_db_def io_bind_def wrapTransaction_handle)

lemma update_keeps_absent_field:
  assumes rf: "registry_flat S" and abs: "\<not> has_key vals k"
    and found: "filter (where_matches params) (table_rows (collectionName m) (view (Some h) w)) = e # es"
    and nt: "collectionName m \<notin> set (component_tables S)"
    and sep: "field_separate S m e k (view (Some h) w)"
  shows "joined m e k (view (Some h) (snd (update (strapi_query S (Suc n)) S m params vals (Some h) w)))
           = joined m e k (view (Some h) w)"
    and "filter (\<lambda>r. row_key r \<in> set (instances m e k (view (Some h) w)))
           (rows (view (Some h) (snd (update (strapi_query S (Suc n)) S m params vals (Some h) w))))
         = filter (\<lambda>r. row_key r \<in> set (instances m e k (view (Some h) w))) (rows (view (Some h) w))"
    and "filter (\<lambda>r. tbl r \<notin> set (component_tables S))
           (rows (view (Some h) (snd (update (strapi_query S (Suc n)) S m params vals (Some h) w))))
         = map (\<lambda>r. if tbl r = tbl e \<and> rid r = rid e
                      then r\<lparr>cols := patch (cols r) (selectAttributes m vals)\<rparr> else r)
             (filter (\<lambda>r. tbl r \<notin> set (component_tables S)) (rows (view (Some h) w)))"
proof -
  define d where "d = view (Some h) w"
  define g :: "row \<Rightarrow> row" where "g = (\<lambda>r. if tbl r = tbl e \<and> rid r = rid e
                            then r\<lparr>cols := patch (cols r) (selectAttributes m vals)\<rparr> else r)"
  define d1 where "d1 = d\<lparr>rows := map g (rows d)\<rparr>"
  define d' where "d' = view (Some h) (snd (runUpdate (strapi_query S (Suc n)) S m params vals e (Some h) w))"
  note found' = found[folded d_def]
  note sep' = sep[folded d_def]
  from filter_hd_in[OF found'] have te: "tbl e = collectionName m" by (simp add: in_table_rows)
  with nt have nte: "tbl e \<notin> set (component_tables S)" by simp
  have inv: "frame_inv S m (rid e) k (kept_rows S m e k d) d1 d1"
    by (rule field_separate_frame_inv[OF rf sep']) (simp_all add: d1_def)
  have tr: "triple (Some h) (\<lambda>x. x = d)
           (runUpdate (strapi_query S (Suc n)) S m params vals e (Some h))
           (\<lambda>u. frame_inv S m (rid e) k (kept_rows S m e k d) d1)
           (frame_inv S m (rid e) k (kept_rows S m e k d) d1)"
    using triple_runUpdate[OF rf abs, where Pr = "kept_rows S m e k d" and e = e and d = d and m = m]
      inv
    by (simp only: d1_def g_def)
  have fin: "frame_inv S m (rid e) k (kept_rows S m e k d) d1 d'"
    using tripleD[OF tr, of w] unfolding d'_def d_def
    by (cases "runUpdate (strapi_query S (Suc n)) S m params vals e (Some h) w")
       (auto split: sum.splits)
  have gk: "\<And>r. row_key (g r) = row_key r" "\<And>r. tbl (g r) = tbl r"
    by (simp_all add: g_def row_key_def)
  have inst_ct: "\<And>r. row_key r \<in> set (instances m e k d) \<Longrightarrow> tbl r \<in> set (component_tables S)"
    using sep' by (auto simp: field_separate_def list_all_iff row_key_def)
  have j: "joined m e k d' = joined m e k d"
    using frame_inv_joined[OF fin, of e] by (simp add: joined_def d1_def)
  have r1: "filter (\<lambda>r. row_key r \<in> set (instances m e k d)) (rows d')
            = filter (\<lambda>r. row_key r \<in> set (instances m e k d)) (rows d)"
  proof -
    have "filter (\<lambda>r. row_key r \<in> set (instances m e k d)) (rows d')
          = filter (\<lambda>r. row_key r \<in> set (instances m e k d)) (rows d1)"
      by (rule frame_inv_rows[OF fin]) (simp add: kept_rows_def)
    also have "\<dots> = filter (\<lambda>r. row_key r \<in> set (instances m e k d)) (map g (rows d))"
      by (simp add: d1_def)
    also have "\<dots> = filter (\<lambda>r. row_key r \<in> set (instances m e k d)) (rows d)"
    proof (rule filter_map_untouched)
      fix r show "(row_key (g r) \<in> set (instances m e k d)) = (row_key r \<in> set (instances m e k d))"
        by (simp add: gk)
      assume "row_key r \<in> set (instances m e k d)"
      from inst_ct[OF this] nte show "g r = r" by (auto simp: g_def)
    qed
    finally show ?thesis .
  qed
  have r2: "filter (\<lambda>r. tbl r \<notin> set (component_tables S)) (rows d')
            = map g (filter (\<lambda>r. tbl r \<notin> set (component_tables S)) (rows d))"
  proof -
    have "filter (\<lambda>r. tbl r \<notin> set (component_tables S)) (rows d')
          = filter (\<lambda>r. tbl r \<notin> set (component_tables S)) (rows d1)"
      by (rule frame_inv_rows[OF fin]) (simp add: kept_rows_def row_key_def)
    also have "\<dots> = map g (filter (\<lambda>r. tbl r \<notin> set (component_tables S)) (rows d))"
      by (simp add: d1_def filter_map comp_def gk)
    finally show ?thesis .
  qed
  note u = update_fetched[OF found, of "strapi_query S (Suc n)" S vals]
  show "joined m e k (view (Some h) (snd (update (strapi_query S (Suc n)) S m params vals (Some h) w)))
           = joined m e k (view (Some h) w)"
    unfolding u using j by (simp only: d'_def d_def)
  show "filter (\<lambda>r. row_key r \<in> set (instances m e k (view (Some h) w)))
           (rows (view (Some h) (snd (update (strapi_query S (Suc n)) S m params vals (Some h) w))))
         = filter (\<lambda>r. row_key r \<in> set (instances m e k (view (Some h) w))) (rows (view (Some h) w))"
    unfolding u using r1 by (simp only: d'_def d_def)
  show "filter (\<lambda>r. tbl r \<notin> set (component_tables S))
           (rows (view (Some h) (snd (update (strapi_query S (Suc n)) S m params vals (Some h) w))))
         = map (\<lambda>r. if tbl r = tbl e \<and> rid r = rid e
                      then r\<lparr>cols := patch (cols r) (selectAttributes m vals)\<rparr> else r)
             (filter (\<lambda>r. tbl r \<notin> set (component_tables S)) (rows (view (Some h) w)))"
    unfolding u using r2 by (simp only: d'_def d_def g_def)
qed

subsection \<open>What an update leaves alone\<close>


lemma report_facts:
  "\<not> has_key report_update ''summary''"
  "view (Some 0) (opened report_world) = report_db"
  "collectionName report_model \<notin> set (component_tables app)"
  "filter (where_matches [(''id'', JNum 1)]) (table_rows (collectionName report_model) report_db)
     = [a_report]"
  by (simp_all add: report_update_def has_key_def view_def opened_def report_world_def report_model_def
        component_tables_def app_def section_model_def quote_model_def table_rows_def report_db_def
        where_matches_def same_value_def column_def to_json_def get_prop_def js_toString_def show_int_def
        a_report_def)

lemma report_instances:
  "instances report_model a_report ''summary'' report_db = [(''components_quotes'', 1)]"
  "joined report_model a_report ''summary'' report_db
     = [\<lparr>jtbl = ''reports_components'', fk = 1, component_type = ''components_quotes'',
          component_id = 1, field = ''summary'', order = 1\<rparr>]"
  by (simp_all add: instances_def joined_def report_db_def report_model_def a_report_def)

lemma report_separate: "field_separate app report_model a_report ''summary'' report_db"
  unfolding field_separate_def report_instances
  by (simp add: component_tables_def app_def section_model_def quote_model_def report_db_def
        touched_keys_def report_model_def sections_attr_def summary_attr_def a_report_def)


end
